theory Spec2Isabelle
  imports Complex_Main "HOL-Library.Multiset" "HOL-Library.Word"
begin

section \<open>Errors\<close>

text \<open>
  The Python exceptions the modelled code can raise. \<open>ValueError\<close> carries the message
  of the \<^verbatim>\<open>raise\<close> statement; the remaining constructors are raised by the interpreter
  or by the cipher library.
\<close>

datatype error =
    ValueError string
  | IndexError
  | OverflowError

section \<open>scheduler.py\<close>

subsection \<open>Task and TaskScheduler\<close>

text \<open>
  \<^verbatim>\<open>class Task\<close>: the fields \<^verbatim>\<open>start_time\<close> and \<^verbatim>\<open>end_time\<close> are set to
  \<^verbatim>\<open>None\<close> and never read, so they are left out. The field \<^verbatim>\<open>size\<close> is called
  \<open>task_size\<close> because \<open>size\<close> is a constant of HOL. \<^verbatim>\<open>arrival_time\<close> is the reading of
  \<^verbatim>\<open>time.time()\<close> at construction. \<^verbatim>\<open>remaining_time\<close> starts as \<^verbatim>\<open>size\<close>; Round Robin
  turns it into a float, the model computes the same milliseconds exactly.
\<close>

record task =
  task_id :: nat
  task_size :: int
  arrival_time :: real
  remaining_time :: int

definition Task :: "nat \<Rightarrow> int \<Rightarrow> real \<Rightarrow> task" where
  "Task tid sz now =
     \<lparr>task_id = tid, task_size = sz, arrival_time = now, remaining_time = sz\<rparr>"

record task_scheduler =
  algorithm :: string
  time_quantum :: "int option"
  tasks :: "task list"
  completed_tasks :: "task list"

definition TaskScheduler :: "string \<Rightarrow> int option \<Rightarrow> task_scheduler" where
  "TaskScheduler alg q =
     \<lparr>algorithm = alg, time_quantum = q, tasks = [], completed_tasks = []\<rparr>"

text \<open>\<^verbatim>\<open>add_task\<close>; \<open>now\<close> is the clock reading taken by the \<^verbatim>\<open>Task\<close> constructor.\<close>

definition add_task :: "real \<Rightarrow> nat \<Rightarrow> int \<Rightarrow> task_scheduler \<Rightarrow> task_scheduler" where
  "add_task now tid sz s = s\<lparr>tasks := tasks s @ [Task tid sz now]\<rparr>"

text \<open>
  One dictionary of the list \<^verbatim>\<open>schedule_tasks\<close> returns. The key \<^verbatim>\<open>scheduled_at\<close>
  (a wall-clock reading nothing reads) is left out; \<^verbatim>\<open>quantum\<close> and \<^verbatim>\<open>remaining\<close> exist
  only in Round Robin entries.
\<close>

record entry =
  e_task_id :: nat
  e_size :: int
  e_algorithm :: string
  e_quantum :: "int option"
  e_remaining :: "int option"

subsection \<open>FCFS and SJF\<close>

text \<open>
  Python's \<^verbatim>\<open>sorted(xs, key=f)\<close> is a stable sort, and so is \<open>sort_key\<close>; a stable sort
  by a key has exactly one result.
\<close>

definition schedule_fcfs :: "task_scheduler \<Rightarrow> entry list" where
  "schedule_fcfs s =
     map (\<lambda>t. \<lparr>e_task_id = task_id t, e_size = task_size t, e_algorithm = ''FCFS'',
                e_quantum = None, e_remaining = None\<rparr>)
         (sort_key arrival_time (tasks s))"

definition schedule_sjf :: "task_scheduler \<Rightarrow> entry list" where
  "schedule_sjf s =
     map (\<lambda>t. \<lparr>e_task_id = task_id t, e_size = task_size t, e_algorithm = ''SJF'',
                e_quantum = None, e_remaining = None\<rparr>)
         (sort_key task_size (tasks s))"

subsection \<open>Round Robin\<close>

text \<open>
  \<^verbatim>\<open>ready_queue = deque(self.tasks.copy())\<close> copies the list, not the \<^verbatim>\<open>Task\<close> objects:
  the queue holds references to the scheduler's own tasks. The model keeps the tasks in
  a store (the list \<open>tasks\<close>, addressed by position) and the queue holds positions, so
  that the assignment to \<^verbatim>\<open>task.remaining_time\<close> is an update of the store.

  \<^verbatim>\<open>execution_time = min(quantum / 1000.0, remaining / 1000.0)\<close> is in seconds and is
  only used multiplied by 1000 again; the model keeps milliseconds, \<open>min q remaining\<close>.
  The two agree wherever the doubles \<^verbatim>\<open>x / 1000.0 * 1000\<close> are exact, which holds on
  every input evaluated below (quantum 200 with sizes 300 and 500, quantum 1 with sizes
  1 and 2, and tasks of size 0); they differ where the double falls short of \<open>x\<close>, as
  at quantum 1001 and size 1001, where the source leaves a positive remainder and
  returns one entry more.
  The loop does not end for every quantum (a negative one makes \<^verbatim>\<open>remaining_time\<close>
  grow), so it is a partial function: \<open>None\<close> is the run that never returns.
\<close>

partial_function (option) rr_loop ::
  "int \<Rightarrow> nat list \<Rightarrow> task list \<Rightarrow> entry list \<Rightarrow> (entry list \<times> task list) option"
where
  "rr_loop q ready_queue store scheduled_tasks =
     (case ready_queue of
        [] \<Rightarrow> Some (scheduled_tasks, store)
      | r # rest \<Rightarrow>
          (let t = store ! r;
               execution_time = min q (remaining_time t);
               e = \<lparr>e_task_id = task_id t, e_size = execution_time,
                    e_algorithm = ''Round Robin'', e_quantum = Some q,
                    e_remaining = Some (remaining_time t)\<rparr>;
               t' = t\<lparr>remaining_time := remaining_time t - execution_time\<rparr>
           in rr_loop q (if remaining_time t' > 0 then rest @ [r] else rest)
                (store[r := t']) (scheduled_tasks @ [e])))"

declare rr_loop.simps [code]

text \<open>
  \<^verbatim>\<open>if not self.time_quantum\<close> is true for \<^verbatim>\<open>None\<close> and for \<open>0\<close>. The result is the
  returned list (or the exception) together with the scheduler after the call.
\<close>

definition schedule_round_robin ::
  "task_scheduler \<Rightarrow> ((error + entry list) \<times> task_scheduler) option" where
  "schedule_round_robin s =
     (case time_quantum s of
        None \<Rightarrow> Some (Inl (ValueError
                  ''Time quantum must be specified for Round Robin scheduling''), s)
      | Some q \<Rightarrow>
          if q = 0 then Some (Inl (ValueError
                  ''Time quantum must be specified for Round Robin scheduling''), s)
          else (case rr_loop q [0..<length (tasks s)] (tasks s) [] of
                  None \<Rightarrow> None
                | Some (es, store) \<Rightarrow> Some (Inr es, s\<lparr>tasks := store\<rparr>)))"

definition schedule_tasks ::
  "task_scheduler \<Rightarrow> ((error + entry list) \<times> task_scheduler) option" where
  "schedule_tasks s =
     (if algorithm s = ''FCFS'' then Some (Inr (schedule_fcfs s), s)
      else if algorithm s = ''SJF'' then Some (Inr (schedule_sjf s), s)
      else if algorithm s = ''Round Robin'' then schedule_round_robin s
      else Some (Inl (ValueError (''Unknown scheduling algorithm: '' @ algorithm s)), s))"

text \<open>The scheduler after the orchestrator has registered chunks \<open>0..N-1\<close>: the \<open>i\<close>-th
  call of \<^verbatim>\<open>add_task\<close> reads the clock as \<open>clock i\<close> and registers size \<open>sizes ! i\<close>.\<close>

definition register_tasks ::
  "(nat \<Rightarrow> real) \<Rightarrow> int list \<Rightarrow> task_scheduler \<Rightarrow> task_scheduler" where
  "register_tasks clock sizes s =
     fold (\<lambda>i. add_task (clock i) i (sizes ! i)) [0..<length sizes] s"

section \<open>encryption.py\<close>

subsection \<open>The cipher library\<close>

type_synonym byte = "8 word"
type_synonym bytes = "byte list"

text \<open>
  The package \<^verbatim>\<open>cryptography\<close> is not part of the repository; its three operations
  are parameters of the model. \<open>kdf password salt\<close> is
  \<^verbatim>\<open>PBKDF2HMAC(SHA256, length=32, salt, iterations=100000).derive(password.encode())\<close>;
  \<open>cbc_encrypt key iv data\<close> and \<open>cbc_decrypt key iv data\<close> are
  \<^verbatim>\<open>update(data) + finalize()\<close> of the AES-CBC encryptor and decryptor, for a 16-byte
  \<open>iv\<close> and \<open>data\<close> of whole blocks. The library raises \<^verbatim>\<open>ValueError\<close> for an IV
  of another length and for data that is not a multiple of the block length; these two
  checks are written out in \<open>decrypt_chunk\<close>.
\<close>

record crypto =
  kdf :: "string \<Rightarrow> bytes \<Rightarrow> bytes"
  cbc_encrypt :: "bytes \<Rightarrow> bytes \<Rightarrow> bytes \<Rightarrow> bytes"
  cbc_decrypt :: "bytes \<Rightarrow> bytes \<Rightarrow> bytes \<Rightarrow> bytes"

text \<open>What is assumed of CBC: it keeps the length and decryption inverts encryption.\<close>

definition cipher_ok :: "crypto \<Rightarrow> bool" where
  "cipher_ok c \<longleftrightarrow>
     (\<forall>key iv data. length iv = 16 \<and> length data mod 16 = 0 \<longrightarrow>
        length (cbc_encrypt c key iv data) = length data
        \<and> cbc_decrypt c key iv (cbc_encrypt c key iv data) = data)"

text \<open>A stand-in cipher for closed examples: the key is constant and CBC is the
  identity. It satisfies \<open>cipher_ok\<close>.\<close>

definition toy_crypto :: crypto where
  "toy_crypto = \<lparr>kdf = (\<lambda>password salt. replicate 32 0),
                  cbc_encrypt = (\<lambda>key iv data. data),
                  cbc_decrypt = (\<lambda>key iv data. data)\<rparr>"

text \<open>\<^verbatim>\<open>secrets.token_bytes(16)\<close>: 128 random bits as 16 bytes.\<close>

definition token_bytes16 :: "128 word \<Rightarrow> bytes" where
  "token_bytes16 w = map (\<lambda>i. ucast (drop_bit (8 * i) w)) (rev [0..<16])"

subsection \<open>Chunks\<close>

text \<open>\<^verbatim>\<open>_encrypt_chunk\<close>; \<open>token\<close> is the random value the IV is made of.\<close>

definition encrypt_chunk :: "crypto \<Rightarrow> 128 word \<Rightarrow> bytes \<Rightarrow> bytes \<Rightarrow> bytes" where
  "encrypt_chunk c token chunk_data key =
     (let iv = token_bytes16 token;
          padding_length = 16 - length chunk_data mod 16;
          padded_data = chunk_data @ replicate padding_length (of_nat padding_length);
          encrypted_data = cbc_encrypt c key iv padded_data
      in iv @ encrypted_data)"

text \<open>Python's \<^verbatim>\<open>xs[:k]\<close>: a negative \<open>k\<close> counts from the end, and \<^verbatim>\<open>xs[:-0]\<close> is
  \<^verbatim>\<open>xs[:0]\<close>, the empty sequence.\<close>

definition slice_to :: "'a list \<Rightarrow> int \<Rightarrow> 'a list" where
  "slice_to xs k = (if k < 0 then take (nat (int (length xs) + k)) xs else take (nat k) xs)"

text \<open>The last two lines of \<^verbatim>\<open>_decrypt_chunk\<close>: \<^verbatim>\<open>decrypted_data[-1]\<close> raises
  \<^verbatim>\<open>IndexError\<close> on an empty buffer.\<close>

definition remove_padding :: "bytes \<Rightarrow> error + bytes" where
  "remove_padding decrypted_data =
     (if decrypted_data = [] then Inl IndexError
      else let padding_length = uint (last decrypted_data)
           in Inr (slice_to decrypted_data (- padding_length)))"

text \<open>Python's \<^verbatim>\<open>str(n)\<close> for a natural number, as used in the message of the
  library's \<^verbatim>\<open>ValueError\<close> for an IV of the wrong length.\<close>

function str_nat :: "nat \<Rightarrow> string" where
  "str_nat n =
     (if n < 10 then [''0123456789'' ! n]
      else str_nat (n div 10) @ [''0123456789'' ! (n mod 10)])"
  by pat_completeness auto
termination
  by (relation "measure id") auto

declare str_nat.simps [simp del]

definition decrypt_chunk :: "crypto \<Rightarrow> bytes \<Rightarrow> bytes \<Rightarrow> error + bytes" where
  "decrypt_chunk c chunk_data key =
     (let iv = take 16 chunk_data;
          encrypted_data = drop 16 chunk_data
      in if length iv \<noteq> 16
         then Inl (ValueError (''Invalid IV size ('' @ str_nat (length iv) @ '') for CBC.''))
         else if length encrypted_data mod 16 \<noteq> 0
         then Inl (ValueError
                ''The length of the provided data is not a multiple of the block length.'')
         else remove_padding (cbc_decrypt c key iv encrypted_data))"

subsection \<open>The worker threads\<close>

text \<open>
  The dictionary a worker puts on the result queue: \<open>r_outcome\<close> is \<open>Inr data\<close> for
  \<^verbatim>\<open>'success': True\<close> and \<open>Inl e\<close> for the caught exception. The time stamps are left
  out.
\<close>

record work_result =
  r_chunk_id :: nat
  r_worker_id :: nat
  r_outcome :: "error + bytes"

text \<open>
  The body of the loop of \<^verbatim>\<open>_worker_process\<close> for one task. \<open>rnd\<close> is the sequence of
  values \<^verbatim>\<open>secrets.token_bytes\<close> returns in the run (\<open>rnd 0\<close> is the salt); the chunk
  whose result is the \<open>k\<close>-th on the result queue is encrypted with \<open>rnd (Suc k)\<close>.
\<close>

definition process_task ::
  "crypto \<Rightarrow> bytes \<Rightarrow> string \<Rightarrow> (nat \<Rightarrow> 128 word) \<Rightarrow> nat \<Rightarrow> nat \<Rightarrow> nat \<times> bytes \<Rightarrow> work_result"
where
  "process_task c key operation rnd k worker_id task =
     (case task of (chunk_id, chunk_data) \<Rightarrow>
        \<lparr>r_chunk_id = chunk_id, r_worker_id = worker_id,
         r_outcome = (if operation = ''encrypt''
                      then Inr (encrypt_chunk c (rnd (Suc k)) chunk_data key)
                      else decrypt_chunk c chunk_data key)\<rparr>)"

text \<open>
  The two queues and, for every worker thread, the task it has taken and not yet
  answered. A thread alternates between two actions: \<^verbatim>\<open>task_queue.get\<close> (on an empty
  queue the call times out and the loop continues, which changes nothing) and
  processing the task followed by \<^verbatim>\<open>result_queue.put\<close>.
\<close>

record pool =
  task_queue :: "(nat \<times> bytes) list"
  current :: "(nat \<times> bytes) option list"
  result_queue :: "work_result list"

definition worker_step ::
  "crypto \<Rightarrow> bytes \<Rightarrow> string \<Rightarrow> (nat \<Rightarrow> 128 word) \<Rightarrow> nat \<Rightarrow> pool \<Rightarrow> pool" where
  "worker_step c key operation rnd worker_id p =
     (if length (current p) \<le> worker_id then p
      else case current p ! worker_id of
             None \<Rightarrow>
               (case task_queue p of
                  [] \<Rightarrow> p
                | task # rest \<Rightarrow>
                    p\<lparr>task_queue := rest, current := (current p)[worker_id := Some task]\<rparr>)
           | Some task \<Rightarrow>
               p\<lparr>current := (current p)[worker_id := None],
                 result_queue := result_queue p @
                   [process_task c key operation rnd (length (result_queue p)) worker_id task]\<rparr>)"

text \<open>
  The threads run concurrently; \<open>interleaving\<close> lists, action by action, which thread
  acts next, and is followed by rounds in which every thread acts in turn until all
  tasks are answered (two actions per task suffice). The result is the content of the
  result queue in the order of the \<^verbatim>\<open>put\<close> calls. The main thread has put all tasks
  before it reads the first result, and the queue is first-in first-out, so the tasks
  are taken in dispatch order whenever the threads start taking them.
\<close>

definition worker_pool ::
  "crypto \<Rightarrow> bytes \<Rightarrow> string \<Rightarrow> (nat \<Rightarrow> 128 word) \<Rightarrow> nat \<Rightarrow> nat list \<Rightarrow> (nat \<times> bytes) list
     \<Rightarrow> work_result list" where
  "worker_pool c key operation rnd max_workers interleaving dispatched =
     result_queue
       (fold (worker_step c key operation rnd)
          (interleaving @ concat (replicate (2 * length dispatched) [0..<max_workers]))
          \<lparr>task_queue = dispatched, current = replicate max_workers None,
           result_queue = []\<rparr>)"

subsection \<open>The main thread\<close>

text \<open>\<^verbatim>\<open>f.read(n)\<close> on the rest \<open>f\<close> of a file opened with \<^verbatim>\<open>'rb'\<close>: \<open>-1\<close> reads
  everything, a smaller \<open>n\<close> raises \<^verbatim>\<open>ValueError\<close>.\<close>

definition f_read :: "int \<Rightarrow> bytes \<Rightarrow> error + bytes" where
  "f_read n f =
     (if n < - 1 then Inl (ValueError ''read length must be non-negative or -1'')
      else if n = - 1 then Inr f
      else Inr (take (nat n) f))"

text \<open>The loop of \<^verbatim>\<open>encrypt_file_parallel\<close> that reads the chunks.\<close>

function read_chunks :: "int \<Rightarrow> nat \<Rightarrow> bytes \<Rightarrow> error + (nat \<times> bytes) list" where
  "read_chunks chunk_size chunk_id f =
     (case f_read chunk_size f of
        Inl e \<Rightarrow> Inl e
      | Inr chunk_data \<Rightarrow>
          if chunk_data = [] then Inr []
          else (case read_chunks chunk_size (chunk_id + 1) (drop (length chunk_data) f) of
                  Inl e \<Rightarrow> Inl e
                | Inr chunks \<Rightarrow> Inr ((chunk_id, chunk_data) # chunks)))"
  by pat_completeness auto
termination
  by (relation "measure (\<lambda>(chunk_size, chunk_id, f). length f)")
    (auto simp: f_read_def split: if_splits)

declare read_chunks.simps [simp del]

text \<open>\<^verbatim>\<open>n.to_bytes(4, byteorder='big')\<close> raises \<^verbatim>\<open>OverflowError\<close> from \<open>2^32\<close> on;
  \<^verbatim>\<open>int.from_bytes(bs, byteorder='big')\<close> accepts any length, also none.\<close>

definition to_bytes4 :: "nat \<Rightarrow> error + bytes" where
  "to_bytes4 n =
     (if int n < 2 ^ 32
      then Inr [of_int (int n div 2 ^ 24), of_int (int n div 2 ^ 16),
                of_int (int n div 2 ^ 8), of_int (int n)]
      else Inl OverflowError)"

definition from_bytes :: "bytes \<Rightarrow> nat" where
  "from_bytes bs = nat (foldl (\<lambda>a b. a * 256 + uint b) 0 bs)"

text \<open>The loop of \<^verbatim>\<open>decrypt_file_parallel\<close> that reads \<open>chunk_count\<close> chunks; a read
  past the end of the file returns what is left.\<close>

fun read_frames :: "nat \<Rightarrow> nat \<Rightarrow> bytes \<Rightarrow> (nat \<times> bytes) list" where
  "read_frames 0 i f = []"
| "read_frames (Suc k) i f =
     (let chunk_length = from_bytes (take 4 f);
          chunk_data = take chunk_length (drop 4 f)
      in (i, chunk_data) # read_frames k (Suc i) (drop chunk_length (drop 4 f)))"

text \<open>The loop that registers the chunks: the \<open>i\<close>-th \<^verbatim>\<open>add_task\<close> reads the clock as
  \<open>clock i\<close>.\<close>

definition add_chunk_tasks ::
  "(nat \<Rightarrow> real) \<Rightarrow> (nat \<times> bytes) list \<Rightarrow> task_scheduler \<Rightarrow> task_scheduler" where
  "add_chunk_tasks clock chunks scheduler =
     fold (\<lambda>(i, chunk_id, chunk_data). add_task (clock i) chunk_id (int (length chunk_data)))
       (zip [0..<length chunks] chunks) scheduler"

text \<open>The loop that puts the scheduled tasks on the task queue, from the queue content
  \<open>q\<close> on; \<^verbatim>\<open>chunks[chunk_id]\<close> raises \<^verbatim>\<open>IndexError\<close> for an id that is no position of
  \<open>chunks\<close>, and the tasks put before stay on the queue.\<close>

fun dispatch ::
  "(nat \<times> bytes) list \<Rightarrow> entry list \<Rightarrow> (nat \<times> bytes) list
     \<Rightarrow> error option \<times> (nat \<times> bytes) list" where
  "dispatch chunks [] q = (None, q)"
| "dispatch chunks (task_info # rest) q =
     (if e_task_id task_info < length chunks
      then dispatch chunks rest (q @ [(e_task_id task_info, snd (chunks ! e_task_id task_info))])
      else (Some IndexError, q))"

text \<open>The loop that collects \<open>n\<close> results: \<^verbatim>\<open>result_queue.get()\<close> blocks, so with fewer
  than \<open>n\<close> results ever put the main thread waits forever (\<open>None\<close>).\<close>

definition collect_results :: "nat \<Rightarrow> work_result list \<Rightarrow> work_result list option" where
  "collect_results n rq = (if length rq < n then None else Some (take n rq))"

definition results_dict :: "work_result list \<Rightarrow> (nat \<rightharpoonup> bytes)" where
  "results_dict rs =
     fold (\<lambda>result results.
             case r_outcome result of
               Inr data \<Rightarrow> results(r_chunk_id result \<mapsto> data)
             | Inl e \<Rightarrow> results)
       rs Map.empty"

text \<open>\<^verbatim>\<open>result['success']\<close>, and \<^verbatim>\<open>gantt_data\<close> without the times: chunk and worker of
  every successful result.\<close>

definition success :: "work_result \<Rightarrow> bool" where
  "success r = (case r_outcome r of Inl e \<Rightarrow> False | Inr data \<Rightarrow> True)"

definition gantt_data :: "work_result list \<Rightarrow> (nat \<times> nat) list" where
  "gantt_data rs = map (\<lambda>r. (r_chunk_id r, r_worker_id r)) (filter success rs)"

text \<open>Writing the chunks of the encrypted file after content \<open>f\<close>; an exception leaves
  the file as written so far.\<close>

fun write_chunks :: "(nat \<rightharpoonup> bytes) \<Rightarrow> nat list \<Rightarrow> bytes \<Rightarrow> error option \<times> bytes" where
  "write_chunks results [] f = (None, f)"
| "write_chunks results (i # rest) f =
     (case results i of
        None \<Rightarrow> write_chunks results rest f
      | Some chunk_data \<Rightarrow>
          (case to_bytes4 (length chunk_data) of
             Inl e \<Rightarrow> (Some e, f)
           | Inr n \<Rightarrow> write_chunks results rest (f @ n @ chunk_data)))"

definition write_encrypted :: "bytes \<Rightarrow> nat \<Rightarrow> (nat \<rightharpoonup> bytes) \<Rightarrow> error option \<times> bytes" where
  "write_encrypted salt chunk_count results =
     (case to_bytes4 chunk_count of
        Inl e \<Rightarrow> (Some e, salt)
      | Inr n \<Rightarrow> write_chunks results [0..<chunk_count] (salt @ n))"

definition write_decrypted :: "nat \<Rightarrow> (nat \<rightharpoonup> bytes) \<Rightarrow> bytes" where
  "write_decrypted chunk_count results =
     concat (map (\<lambda>i. case results i of None \<Rightarrow> [] | Some data \<Rightarrow> data) [0..<chunk_count])"

text \<open>
  What a call of \<^verbatim>\<open>encrypt_file_parallel\<close> or \<^verbatim>\<open>decrypt_file_parallel\<close> does:
  \<open>returned\<close> is \<open>None\<close> when the call never returns, \<open>Some (Inl e)\<close> when it raises
  \<open>e\<close>, and \<open>Some (Inr (gantt, n))\<close> when it returns \<open>gantt\<close> and \<open>n = len(chunks)\<close>;
  \<open>output_file\<close> is the content of the output file, \<open>None\<close> when it was not created;
  \<open>workers_started\<close> counts the threads started and \<open>dispatched\<close> lists the tasks put on
  the task queue.
\<close>

record run =
  returned :: "(error + (nat \<times> nat) list \<times> nat) option"
  output_file :: "bytes option"
  workers_started :: nat
  dispatched :: "(nat \<times> bytes) list"

text \<open>
  The part both functions share, from \<^verbatim>\<open># Schedule tasks\<close> to the joined workers:
  the result is either the finished \<open>run\<close> (an exception, or no return) or the
  collected results.
\<close>

definition run_workers ::
  "crypto \<Rightarrow> (nat \<Rightarrow> 128 word) \<Rightarrow> (nat \<Rightarrow> real) \<Rightarrow> nat list \<Rightarrow> bytes \<Rightarrow> string
     \<Rightarrow> (nat \<times> bytes) list \<Rightarrow> int \<Rightarrow> task_scheduler \<Rightarrow> run + work_result list \<times> run" where
  "run_workers c rnd clock interleaving key operation chunks max_workers scheduler =
     (let scheduler1 = add_chunk_tasks clock chunks scheduler;
          started = \<lparr>returned = None, output_file = None,
                     workers_started = nat max_workers, dispatched = []\<rparr>
      in case schedule_tasks scheduler1 of
           None \<Rightarrow> Inl started
         | Some (Inl e, scheduler2) \<Rightarrow> Inl (started\<lparr>returned := Some (Inl e)\<rparr>)
         | Some (Inr scheduled_tasks, scheduler2) \<Rightarrow>
             (case dispatch chunks scheduled_tasks [] of
                (Some e, q) \<Rightarrow> Inl (started\<lparr>returned := Some (Inl e), dispatched := q\<rparr>)
              | (None, q) \<Rightarrow>
                  (case collect_results (length chunks)
                          (worker_pool c key operation rnd (nat max_workers) interleaving q) of
                     None \<Rightarrow> Inl (started\<lparr>dispatched := q\<rparr>)
                   | Some rs \<Rightarrow> Inr (rs, started\<lparr>dispatched := q\<rparr>))))"

definition encrypt_file_parallel ::
  "crypto \<Rightarrow> (nat \<Rightarrow> 128 word) \<Rightarrow> (nat \<Rightarrow> real) \<Rightarrow> nat list \<Rightarrow> bytes \<Rightarrow> string \<Rightarrow> int \<Rightarrow> int
     \<Rightarrow> task_scheduler \<Rightarrow> run" where
  "encrypt_file_parallel c rnd clock interleaving input_file password chunk_size max_workers
       scheduler =
     (let salt = token_bytes16 (rnd 0);
          key = kdf c password salt
      in case read_chunks chunk_size 0 input_file of
           Inl e \<Rightarrow>
             \<lparr>returned = Some (Inl e), output_file = None, workers_started = 0,
              dispatched = []\<rparr>
         | Inr chunks \<Rightarrow>
             if chunks = []
             then \<lparr>returned = Some (Inl (ValueError ''File is empty'')), output_file = None,
                   workers_started = 0, dispatched = []\<rparr>
             else case run_workers c rnd clock interleaving key ''encrypt'' chunks max_workers
                         scheduler of
                    Inl r \<Rightarrow> r
                  | Inr (rs, r) \<Rightarrow>
                      (case write_encrypted salt (length chunks) (results_dict rs) of
                         (Some e, f) \<Rightarrow> r\<lparr>returned := Some (Inl e), output_file := Some f\<rparr>
                       | (None, f) \<Rightarrow>
                           r\<lparr>returned := Some (Inr (gantt_data rs, length chunks)),
                             output_file := Some f\<rparr>))"

text \<open>The parameter \<^verbatim>\<open>chunk_size\<close> of \<^verbatim>\<open>decrypt_file_parallel\<close> is not used by it.\<close>

definition decrypt_file_parallel ::
  "crypto \<Rightarrow> (nat \<Rightarrow> 128 word) \<Rightarrow> (nat \<Rightarrow> real) \<Rightarrow> nat list \<Rightarrow> bytes \<Rightarrow> string \<Rightarrow> int \<Rightarrow> int
     \<Rightarrow> task_scheduler \<Rightarrow> run" where
  "decrypt_file_parallel c rnd clock interleaving input_file password chunk_size max_workers
       scheduler =
     (let salt = take 16 input_file;
          key = kdf c password salt;
          chunk_count = from_bytes (take 4 (drop 16 input_file));
          chunks = read_frames chunk_count 0 (drop 4 (drop 16 input_file))
      in case run_workers c rnd clock interleaving key ''decrypt'' chunks max_workers
                scheduler of
           Inl r \<Rightarrow> r
         | Inr (rs, r) \<Rightarrow>
             r\<lparr>returned := Some (Inr (gantt_data rs, length chunks)),
               output_file := Some (write_decrypted (length chunks) (results_dict rs))\<rparr>)"

subsection \<open>Notions used in the statements and proofs\<close>

text \<open>
  The tasks the threads hold, the work left (two actions for a queued task, one for a
  task in progress), whether an action of thread \<open>w\<close> changes the state, and the
  relation between a list of tasks and the list of their results.
\<close>

definition option_list :: "'a option \<Rightarrow> 'a list" where
  "option_list x = (case x of None \<Rightarrow> [] | Some t \<Rightarrow> [t])"

definition in_flight :: "pool \<Rightarrow> (nat \<times> bytes) list" where
  "in_flight p = concat (map option_list (current p))"

definition work :: "pool \<Rightarrow> nat" where
  "work p = 2 * length (task_queue p) + length (in_flight p)"

definition enabled :: "nat \<Rightarrow> pool \<Rightarrow> bool" where
  "enabled w p \<longleftrightarrow> w < length (current p) \<and> (current p ! w \<noteq> None \<or> task_queue p \<noteq> [])"

definition answers ::
  "crypto \<Rightarrow> bytes \<Rightarrow> string \<Rightarrow> (nat \<Rightarrow> 128 word) \<Rightarrow> (nat \<times> bytes) list \<Rightarrow> work_result list
     \<Rightarrow> bool" where
  "answers c key operation rnd ts rs \<longleftrightarrow>
     list_all2 (\<lambda>t r. \<exists>k w. r = process_task c key operation rnd k w t) ts rs"

text \<open>The chunks of a run are numbered by position: \<open>chunks[i]\<close> has id \<open>i\<close>.\<close>

definition well_numbered :: "(nat \<times> bytes) list \<Rightarrow> bool" where
  "well_numbered chunks \<longleftrightarrow> map fst chunks = [0..<length chunks]"

text \<open>What \<open>f_read\<close> and \<open>read_chunks\<close> return when they do not raise, that is for
  \<open>n\<close> and \<open>chunk_size\<close> from \<open>-1\<close> on.\<close>

definition read_prefix :: "int \<Rightarrow> bytes \<Rightarrow> bytes" where
  "read_prefix n f = (if n < 0 then f else take (nat n) f)"

function split_chunks :: "int \<Rightarrow> nat \<Rightarrow> bytes \<Rightarrow> (nat \<times> bytes) list" where
  "split_chunks chunk_size chunk_id f =
     (if read_prefix chunk_size f = [] then []
      else (chunk_id, read_prefix chunk_size f) #
             split_chunks chunk_size (chunk_id + 1) (drop (length (read_prefix chunk_size f)) f))"
  by pat_completeness auto
termination
  by (relation "measure (\<lambda>(chunk_size, chunk_id, f). length f)")
    (auto simp: read_prefix_def split: if_splits)

declare split_chunks.simps [simp del]

text \<open>The four bytes \<^verbatim>\<open>n.to_bytes(4, byteorder='big')\<close> writes when it does not
  raise.\<close>

definition be4 :: "nat \<Rightarrow> bytes" where
  "be4 n = [of_int (int n div 2 ^ 24), of_int (int n div 2 ^ 16),
            of_int (int n div 2 ^ 8), of_int (int n)]"


text \<open>What a call of \<^verbatim>\<open>schedule_tasks\<close> returned, as the list of task ids, and the
  scheduler it left.\<close>

definition entry_ids :: "((error + entry list) \<times> task_scheduler) option \<Rightarrow> nat list option" where
  "entry_ids r = (case r of Some (Inr es, _) \<Rightarrow> Some (map e_task_id es) | _ \<Rightarrow> None)"

definition scheduler_after ::
  "((error + entry list) \<times> task_scheduler) option \<Rightarrow> task_scheduler option" where
  "scheduler_after r = map_option snd r"

subsection \<open>Inputs of the examples\<close>

text \<open>A scheduler with quantum 200 and tasks 0 and 1 of sizes 300 and 500. On these
  values, and on quantum 1 with sizes 1 and 2, the floating-point arithmetic of the
  source is exact.\<close>

definition rr_example :: task_scheduler where
  "rr_example =
     add_task 0 1 500 (add_task 0 0 300 (TaskScheduler ''Round Robin'' (Some 200)))"

text \<open>An encrypted file of two chunks for \<open>toy_crypto\<close>: chunk 0 is the frame of the
  plaintext \<open>A\<close> (byte 65), chunk 1 has only 5 bytes, fewer than an IV.\<close>

definition damaged_file :: bytes where
  "damaged_file =
     replicate 16 0 @ [0, 0, 0, 2]
       @ [0, 0, 0, 32] @ replicate 16 0 @ [65] @ replicate 15 15
       @ [0, 0, 0, 5] @ [1, 2, 3, 4, 5]"

section \<open>Properties of the scheduler\<close>

lemma tasks_register_tasks:
  "tasks (register_tasks clock sizes s) =
     tasks s @ map (\<lambda>i. Task i (sizes ! i) (clock i)) [0..<length sizes]"
proof -
  have "tasks (fold (\<lambda>i. add_task (clock i) i (sizes ! i)) is s) =
          tasks s @ map (\<lambda>i. Task i (sizes ! i) (clock i)) is" for "is" s
    by (induction "is" arbitrary: s) (simp_all add: add_task_def)
  then show ?thesis by (simp add: register_tasks_def)
qed


subsection \<open>SJF\<close>

lemma schedule_sjf_sorted: "sorted (map e_size (schedule_sjf s))"
  by (simp add: schedule_sjf_def comp_def)

lemma schedule_sjf_stable:
  "map e_task_id (filter (\<lambda>e. e_size e = k) (schedule_sjf s)) =
     map task_id (filter (\<lambda>t. task_size t = k) (tasks s))"
  by (simp add: schedule_sjf_def filter_map comp_def sort_key_stable)

lemma schedule_sjf_mset:
  "mset (map (\<lambda>e. (e_task_id e, e_size e)) (schedule_sjf s)) =
     mset (map (\<lambda>t. (task_id t, task_size t)) (tasks s))"
proof -
  have "map (\<lambda>e. (e_task_id e, e_size e)) (schedule_sjf s) =
          map (\<lambda>t. (task_id t, task_size t)) (sort_key task_size (tasks s))"
    by (simp add: schedule_sjf_def comp_def)
  then show ?thesis by (simp del: map_map)
qed

lemma schedule_sjf_example:
  "map e_task_id (schedule_sjf (add_task c 2 900 (add_task b 1 100 (add_task a 0 500
     (TaskScheduler ''SJF'' q))))) = [1, 0, 2]"
  by (simp add: schedule_sjf_def add_task_def TaskScheduler_def Task_def)

text \<open>
  Claim C7. For every list of registered tasks, SJF returns the registered tasks (the
  same ids with the same sizes, as a multiset) in ascending order of size, and the
  tasks of any one size \<open>k\<close> keep their registration order; the scheduler is left as it
  was. For three tasks registered in order with sizes 500, 100, 900 (at any clock
  readings \<open>a\<close>, \<open>b\<close>, \<open>c\<close>) the order is 1, 0, 2.
\<close>

theorem sjf_sorted_by_size_stable:
  "schedule_tasks (s\<lparr>algorithm := ''SJF''\<rparr>) =
       Some (Inr (schedule_sjf s), s\<lparr>algorithm := ''SJF''\<rparr>)
   \<and> sorted (map e_size (schedule_sjf s))
   \<and> mset (map (\<lambda>e. (e_task_id e, e_size e)) (schedule_sjf s)) =
       mset (map (\<lambda>t. (task_id t, task_size t)) (tasks s))
   \<and> map e_task_id (filter (\<lambda>e. e_size e = k) (schedule_sjf s)) =
       map task_id (filter (\<lambda>t. task_size t = k) (tasks s))
   \<and> map e_task_id (schedule_sjf (add_task c 2 900 (add_task b 1 100 (add_task a 0 500
       (TaskScheduler ''SJF'' q))))) = [1, 0, 2]"
proof -
  have "schedule_tasks (s\<lparr>algorithm := ''SJF''\<rparr>) =
          Some (Inr (schedule_sjf s), s\<lparr>algorithm := ''SJF''\<rparr>)"
    by (simp add: schedule_tasks_def schedule_sjf_def)
  then show ?thesis
    using schedule_sjf_sorted schedule_sjf_mset schedule_sjf_stable schedule_sjf_example
    by blast
qed

subsection \<open>FCFS\<close>

text \<open>
  Claim C8, as amended. When chunks \<open>0..N-1\<close> are registered in that order, the
  \<open>i\<close>-th \<^verbatim>\<open>add_task\<close> reading the clock as \<open>clock i\<close>, FCFS scheduling returns the ids
  \<open>0..N-1\<close> in ascending order of their clock readings, ids with the same reading in
  registration order. When the readings do not decrease from one \<^verbatim>\<open>add_task\<close> to the
  next, this is the dispatch order \<open>0..N-1\<close>.
\<close>

theorem fcfs_registration_order:
  "schedule_tasks (register_tasks clock sizes (TaskScheduler ''FCFS'' q)) =
       Some (Inr (schedule_fcfs (register_tasks clock sizes (TaskScheduler ''FCFS'' q))),
             register_tasks clock sizes (TaskScheduler ''FCFS'' q))
   \<and> mset (map e_task_id (schedule_fcfs (register_tasks clock sizes (TaskScheduler ''FCFS'' q))))
       = mset [0..<length sizes]
   \<and> sorted (map clock
        (map e_task_id (schedule_fcfs (register_tasks clock sizes (TaskScheduler ''FCFS'' q)))))
   \<and> filter (\<lambda>i. clock i = k)
        (map e_task_id (schedule_fcfs (register_tasks clock sizes (TaskScheduler ''FCFS'' q))))
       = filter (\<lambda>i. clock i = k) [0..<length sizes]
   \<and> (sorted (map clock [0..<length sizes]) \<longrightarrow>
        map e_task_id (schedule_fcfs (register_tasks clock sizes (TaskScheduler ''FCFS'' q)))
          = [0..<length sizes])"
proof -
  let ?s = "register_tasks clock sizes (TaskScheduler ''FCFS'' q)"
  let ?ts = "map (\<lambda>i. Task i (sizes ! i) (clock i)) [0..<length sizes]"
  have ts: "tasks ?s = ?ts"
    by (simp add: tasks_register_tasks TaskScheduler_def)
  have ids: "map e_task_id (schedule_fcfs ?s) = map task_id (sort_key arrival_time ?ts)"
    by (simp add: schedule_fcfs_def ts comp_def)
  have tid: "map task_id ?ts = [0..<length sizes]"
    by (simp add: comp_def Task_def)
  have arr: "clock (task_id t) = arrival_time t" if "t \<in> set ?ts" for t
    using that by (auto simp: Task_def)
  have "algorithm ?s = ''FCFS''"
    by (simp add: register_tasks_def add_task_def TaskScheduler_def
        fold_invariant [where Q = "\<lambda>_. True" and P = "\<lambda>s. algorithm s = ''FCFS''"])
  then have 1: "schedule_tasks ?s = Some (Inr (schedule_fcfs ?s), ?s)"
    by (simp add: schedule_tasks_def)
  have "mset (map task_id (sort_key arrival_time ?ts)) = mset (map task_id ?ts)"
    by (simp del: map_map)
  then have 2: "mset (map e_task_id (schedule_fcfs ?s)) = mset [0..<length sizes]"
    by (simp only: ids tid)
  have "map clock (map task_id (sort_key arrival_time ?ts)) =
          map arrival_time (sort_key arrival_time ?ts)"
    unfolding map_map by (rule map_cong) (simp_all add: arr)
  then have 3: "sorted (map clock (map e_task_id (schedule_fcfs ?s)))"
    by (simp only: ids) simp
  have "filter (\<lambda>i. clock i = k) (map task_id (sort_key arrival_time ?ts)) =
          map task_id (filter (\<lambda>t. clock (task_id t) = k) (sort_key arrival_time ?ts))"
    by (simp add: filter_map comp_def)
  also have "filter (\<lambda>t. clock (task_id t) = k) (sort_key arrival_time ?ts) =
               filter (\<lambda>t. arrival_time t = k) (sort_key arrival_time ?ts)"
    by (rule filter_cong) (simp_all add: arr)
  also have "\<dots> = filter (\<lambda>t. arrival_time t = k) ?ts"
    by (rule sort_key_stable)
  also have "\<dots> = filter (\<lambda>t. clock (task_id t) = k) ?ts"
    by (rule filter_cong) (simp_all add: arr)
  also have "map task_id (filter (\<lambda>t. clock (task_id t) = k) ?ts) =
               filter (\<lambda>i. clock i = k) (map task_id ?ts)"
    by (simp add: filter_map comp_def)
  finally have 4: "filter (\<lambda>i. clock i = k) (map e_task_id (schedule_fcfs ?s)) =
                     filter (\<lambda>i. clock i = k) [0..<length sizes]"
    by (simp only: ids tid)
  have 5: "map e_task_id (schedule_fcfs ?s) = [0..<length sizes]"
    if "sorted (map clock [0..<length sizes])"
  proof -
    have m: "map arrival_time ?ts = map clock [0..<length sizes]"
      by (simp add: comp_def Task_def)
    from that have "sorted (map arrival_time ?ts)"
      by (simp only: m)
    then have "sort_key arrival_time ?ts = ?ts"
      by (rule sort_key_id_if_sorted)
    then show ?thesis by (simp only: ids tid)
  qed
  from 1 2 3 4 5 show ?thesis by blast
qed

theorem fcfs_registration_order_witness:
  "sorted (map (\<lambda>i. if i = 0 then 1 else (2::real)) [0..<length [500, 100, 900 :: int]])
   \<and> map e_task_id (schedule_fcfs (register_tasks (\<lambda>i. if i = 0 then 1 else 2)
        [500, 100, 900] (TaskScheduler ''FCFS'' None))) = [0, 1, 2]"
proof -
  have h: "sorted (map (\<lambda>i. if i = 0 then 1 else (2::real)) [0..<length [500, 100, 900 :: int]])"
    by (simp add: upt_rec)
  have "[0..<length [500, 100, 900 :: int]] = [0, 1, 2]"
    by (simp add: upt_rec)
  with h fcfs_registration_order [of "\<lambda>i. if i = 0 then 1 else 2" "[500, 100, 900]" None]
  show ?thesis
    by simp
qed

text \<open>
  Claim C8 as stated fails: the order follows the clock readings, not the
  registration. With readings 3, 2, 1 for the tasks 0, 1, 2 the dispatch order is
  2, 1, 0.
\<close>

theorem fcfs_follows_the_clock_counterexample:
  "map e_task_id (schedule_fcfs (register_tasks (\<lambda>i. 3 - real i) [500, 100, 900]
     (TaskScheduler ''FCFS'' None))) = [2, 1, 0]"
  by (simp add: schedule_fcfs_def register_tasks_def add_task_def TaskScheduler_def Task_def
      upt_rec)

subsection \<open>Round Robin\<close>

lemma rr_example_run:
  "schedule_tasks rr_example =
     Some (Inr [\<lparr>e_task_id = 0, e_size = 200, e_algorithm = ''Round Robin'',
                  e_quantum = Some 200, e_remaining = Some 300\<rparr>,
                \<lparr>e_task_id = 1, e_size = 200, e_algorithm = ''Round Robin'',
                  e_quantum = Some 200, e_remaining = Some 500\<rparr>,
                \<lparr>e_task_id = 0, e_size = 100, e_algorithm = ''Round Robin'',
                  e_quantum = Some 200, e_remaining = Some 100\<rparr>,
                \<lparr>e_task_id = 1, e_size = 200, e_algorithm = ''Round Robin'',
                  e_quantum = Some 200, e_remaining = Some 300\<rparr>,
                \<lparr>e_task_id = 1, e_size = 100, e_algorithm = ''Round Robin'',
                  e_quantum = Some 200, e_remaining = Some 100\<rparr>],
           rr_example\<lparr>tasks := [(Task 0 300 0)\<lparr>remaining_time := 0\<rparr>,
                                 (Task 1 500 0)\<lparr>remaining_time := 0\<rparr>]\<rparr>)"
  by (simp add: rr_example_def schedule_tasks_def schedule_round_robin_def add_task_def
      TaskScheduler_def Task_def rr_loop.simps Let_def upt_rec)

lemma rr_example_second_run:
  "schedule_tasks (rr_example\<lparr>tasks := [(Task 0 300 0)\<lparr>remaining_time := 0\<rparr>,
                                        (Task 1 500 0)\<lparr>remaining_time := 0\<rparr>]\<rparr>) =
     Some (Inr [\<lparr>e_task_id = 0, e_size = 0, e_algorithm = ''Round Robin'',
                  e_quantum = Some 200, e_remaining = Some 0\<rparr>,
                \<lparr>e_task_id = 1, e_size = 0, e_algorithm = ''Round Robin'',
                  e_quantum = Some 200, e_remaining = Some 0\<rparr>],
           rr_example\<lparr>tasks := [(Task 0 300 0)\<lparr>remaining_time := 0\<rparr>,
                                 (Task 1 500 0)\<lparr>remaining_time := 0\<rparr>]\<rparr>)"
  by (simp add: rr_example_def schedule_tasks_def schedule_round_robin_def add_task_def
      TaskScheduler_def Task_def rr_loop.simps Let_def upt_rec)

lemma rr_dispatched_twice: "map fst (dispatched (encrypt_file_parallel toy_crypto (\<lambda>_. 0) (\<lambda>_. 0) [] [1, 2, 3, 4]
                      ''pw'' 2 1 (TaskScheduler ''Round Robin'' (Some 1)))) = [0, 1, 0, 1]"
  by code_simp

text \<open>
  Claim C2 (fails on the code). With quantum 200 and two tasks of sizes 300 and 500,
  Round Robin returns five entries, one per quantum slice: task 0 occurs twice and task
  1 three times, so the dispatch order is not one entry per task id. Every entry is
  put on the task queue: a 4-byte file in chunks of 2 bytes under quantum 1 has the
  chunk ids 0, 1, 0, 1 dispatched.
\<close>

theorem rr_one_entry_per_slice:
  "entry_ids (schedule_tasks rr_example) = Some [0, 1, 0, 1, 1]
   \<and> \<not> distinct [0, 1, 0, 1, 1 :: nat]
   \<and> map fst (dispatched (encrypt_file_parallel toy_crypto (\<lambda>_. 0) (\<lambda>_. 0) [] [1, 2, 3, 4]
                      ''pw'' 2 1 (TaskScheduler ''Round Robin'' (Some 1)))) = [0, 1, 0, 1]"
  by (simp add: rr_example_run entry_ids_def rr_dispatched_twice)

text \<open>
  Claim C9 (fails on the code). Round Robin decrements \<^verbatim>\<open>remaining_time\<close> of the
  scheduler's own tasks: after the first call both tasks of the example have remaining
  time 0 instead of 300 and 500, and a second call on the same scheduler returns the
  ids 0, 1 instead of 0, 1, 0, 1, 1.
\<close>

theorem rr_mutates_registered_tasks:
  "map remaining_time (tasks rr_example) = [300, 500]
   \<and> map_option (map remaining_time \<circ> tasks) (scheduler_after (schedule_tasks rr_example))
       = Some [0, 0]
   \<and> entry_ids (schedule_tasks rr_example) = Some [0, 1, 0, 1, 1]
   \<and> map_option (entry_ids \<circ> schedule_tasks) (scheduler_after (schedule_tasks rr_example))
       = Some (Some [0, 1])"
proof -
  let ?s' = "rr_example\<lparr>tasks := [(Task 0 300 0)\<lparr>remaining_time := 0\<rparr>,
                                   (Task 1 500 0)\<lparr>remaining_time := 0\<rparr>]\<rparr>"
  have before: "map remaining_time (tasks rr_example) = [300, 500]"
    by (simp add: rr_example_def add_task_def Task_def TaskScheduler_def)
  have after: "scheduler_after (schedule_tasks rr_example) = Some ?s'"
    by (simp only: rr_example_run scheduler_after_def option.map snd_conv)
  have rem: "map remaining_time (tasks ?s') = [0, 0]"
    by simp
  have first: "entry_ids (schedule_tasks rr_example) = Some [0, 1, 0, 1, 1]"
    by (simp add: rr_example_run entry_ids_def)
  have second: "entry_ids (schedule_tasks ?s') = Some [0, 1]"
    by (simp only: rr_example_second_run) (simp add: entry_ids_def)
  show ?thesis
    by (simp only: before after first second rem option.map comp_apply simp_thms)
qed

section \<open>Properties of the worker threads\<close>

lemma mset_flat_update:
  "i < length xs \<Longrightarrow>
     mset (concat (map option_list (xs[i := y]))) + mset (option_list (xs ! i)) =
     mset (concat (map option_list xs)) + mset (option_list y)"
proof (induction xs arbitrary: i)
  case Nil
  then show ?case by simp
next
  case (Cons x xs)
  show ?case
  proof (cases i)
    case 0
    then show ?thesis by simp
  next
    case (Suc j)
    with Cons.prems have "j < length xs" by simp
    from Cons.IH [OF this] show ?thesis using Suc by (simp add: ac_simps)
  qed
qed

lemma length_current_step [simp]:
  "length (current (worker_step c key operation rnd w p)) = length (current p)"
  by (simp add: worker_step_def split: option.splits list.splits)

lemma step_not_enabled:
  "\<not> enabled w p \<Longrightarrow> worker_step c key operation rnd w p = p"
  by (auto simp: enabled_def worker_step_def split: option.splits list.splits)

lemma step_conserves:
  assumes "answers c key operation rnd ts (result_queue p)"
  shows "\<exists>ts'. answers c key operation rnd ts' (result_queue (worker_step c key operation rnd w p))
           \<and> mset ts' + mset (in_flight (worker_step c key operation rnd w p))
                + mset (task_queue (worker_step c key operation rnd w p))
             = mset ts + mset (in_flight p) + mset (task_queue p)"
proof (cases "enabled w p")
  case False
  with assms show ?thesis by (auto simp: step_not_enabled)
next
  case True
  then have w: "w < length (current p)" by (simp add: enabled_def)
  show ?thesis
  proof (cases "current p ! w")
    case None
    with True obtain t rest where q: "task_queue p = t # rest"
      by (auto simp: enabled_def neq_Nil_conv)
    have s: "worker_step c key operation rnd w p =
               p\<lparr>task_queue := rest, current := (current p)[w := Some t]\<rparr>"
      using w None q by (simp add: worker_step_def)
    from mset_flat_update [OF w, of "Some t"] None
    have "mset (in_flight (worker_step c key operation rnd w p)) = mset (in_flight p) + {#t#}"
      by (simp add: s in_flight_def option_list_def)
    with assms show ?thesis
      by (intro exI [of _ ts]) (simp add: s q)
  next
    case (Some t)
    let ?r = "process_task c key operation rnd (length (result_queue p)) w t"
    have s: "worker_step c key operation rnd w p =
               p\<lparr>current := (current p)[w := None], result_queue := result_queue p @ [?r]\<rparr>"
      using w Some by (simp add: worker_step_def)
    from mset_flat_update [OF w, of None] Some
    have "mset (in_flight (worker_step c key operation rnd w p)) + {#t#} = mset (in_flight p)"
      by (simp add: s in_flight_def option_list_def)
    moreover have "answers c key operation rnd (ts @ [t]) (result_queue p @ [?r])"
      using assms by (auto simp: answers_def intro!: list_all2_appendI)
    ultimately show ?thesis
      by (intro exI [of _ "ts @ [t]"]) (auto simp: s ac_simps)
  qed
qed

lemma step_work:
  "work (worker_step c key operation rnd w p) \<le> work p"
  "enabled w p \<Longrightarrow> work (worker_step c key operation rnd w p) < work p"
proof -
  have *: "enabled w p \<Longrightarrow> work (worker_step c key operation rnd w p) < work p"
  proof -
    assume e: "enabled w p"
    then have w: "w < length (current p)" by (simp add: enabled_def)
    show ?thesis
    proof (cases "current p ! w")
      case None
      with e obtain t rest where q: "task_queue p = t # rest"
        by (auto simp: enabled_def neq_Nil_conv)
      have s: "worker_step c key operation rnd w p =
                 p\<lparr>task_queue := rest, current := (current p)[w := Some t]\<rparr>"
        using w None q by (simp add: worker_step_def)
      from mset_flat_update [OF w, of "Some t"] None
      have "mset (in_flight (worker_step c key operation rnd w p)) = mset (in_flight p) + {#t#}"
        by (simp add: s in_flight_def option_list_def)
      then have "length (in_flight (worker_step c key operation rnd w p)) = length (in_flight p) + 1"
        by (metis size_mset size_union size_single)
      then show ?thesis by (simp add: work_def s q)
    next
      case (Some t)
      let ?r = "process_task c key operation rnd (length (result_queue p)) w t"
      have s: "worker_step c key operation rnd w p =
                 p\<lparr>current := (current p)[w := None], result_queue := result_queue p @ [?r]\<rparr>"
        using w Some by (simp add: worker_step_def)
      from mset_flat_update [OF w, of None] Some
      have "mset (in_flight (worker_step c key operation rnd w p)) + {#t#} = mset (in_flight p)"
        by (simp add: s in_flight_def option_list_def)
      then have "length (in_flight (worker_step c key operation rnd w p)) + 1 = length (in_flight p)"
        by (metis size_mset size_union size_single)
      then show ?thesis by (simp add: work_def s)
    qed
  qed
  then show "enabled w p \<Longrightarrow> work (worker_step c key operation rnd w p) < work p" .
  show "work (worker_step c key operation rnd w p) \<le> work p"
    using * by (cases "enabled w p") (auto simp: step_not_enabled less_imp_le)
qed


lemma length_current_fold [simp]:
  "length (current (fold (worker_step c key operation rnd) ws p)) = length (current p)"
  by (induction ws arbitrary: p) simp_all

lemma fold_work_le:
  "work (fold (worker_step c key operation rnd) ws p) \<le> work p"
proof (induction ws arbitrary: p)
  case Nil
  show ?case by simp
next
  case (Cons w ws)
  have "work (fold (worker_step c key operation rnd) ws (worker_step c key operation rnd w p))
          \<le> work (worker_step c key operation rnd w p)"
    by (rule Cons.IH)
  also have "\<dots> \<le> work p" by (rule step_work)
  finally show ?case by simp
qed

lemma fold_work_less:
  "\<exists>w \<in> set ws. enabled w p \<Longrightarrow> work (fold (worker_step c key operation rnd) ws p) < work p"
proof (induction ws arbitrary: p)
  case Nil
  then show ?case by simp
next
  case (Cons v ws)
  show ?case
  proof (cases "enabled v p")
    case True
    have "work (fold (worker_step c key operation rnd) ws (worker_step c key operation rnd v p))
            \<le> work (worker_step c key operation rnd v p)"
      by (rule fold_work_le)
    also have "\<dots> < work p" using True by (rule step_work)
    finally show ?thesis by simp
  next
    case False
    with Cons.prems have "\<exists>w \<in> set ws. enabled w p" by auto
    from Cons.IH [OF this] False show ?thesis by (simp add: step_not_enabled)
  qed
qed

lemma some_worker_enabled:
  assumes "0 < work p" and "0 < length (current p)"
  shows "\<exists>w \<in> set [0..<length (current p)]. enabled w p"
proof (cases "task_queue p = []")
  case False
  with assms(2) have "enabled 0 p" by (simp add: enabled_def)
  with assms(2) show ?thesis by auto
next
  case True
  with assms(1) have "in_flight p \<noteq> []" by (auto simp: work_def)
  then obtain x where "x \<in> set (current p)" "option_list x \<noteq> []"
    by (auto simp: in_flight_def)
  then obtain w where "w < length (current p)" "current p ! w \<noteq> None"
    by (auto simp: in_set_conv_nth option_list_def split: option.splits)
  then have "enabled w p" by (simp add: enabled_def)
  with \<open>w < length (current p)\<close> show ?thesis by auto
qed

lemma rounds_work:
  assumes "0 < length (current p)"
  shows "work (fold (worker_step c key operation rnd)
                 (concat (replicate k [0..<length (current p)])) p) \<le> work p - k"
  using assms
proof (induction k arbitrary: p)
  case 0
  show ?case by simp
next
  case (Suc k)
  let ?p' = "fold (worker_step c key operation rnd) [0..<length (current p)] p"
  have l: "length (current ?p') = length (current p)" by simp
  have "work ?p' \<le> work p - 1"
  proof (cases "0 < work p")
    case True
    from some_worker_enabled [OF True Suc.prems]
    have "work ?p' < work p" by (rule fold_work_less)
    then show ?thesis by simp
  next
    case False
    then show ?thesis using fold_work_le [of c key operation rnd "[0..<length (current p)]" p]
      by simp
  qed
  moreover have "work (fold (worker_step c key operation rnd)
                   (concat (replicate k [0..<length (current ?p')])) ?p') \<le> work ?p' - k"
    using Suc.prems by (intro Suc.IH) simp
  ultimately show ?case by (simp add: l)
qed

lemma fold_conserves:
  assumes "answers c key operation rnd ts (result_queue p)"
  shows "\<exists>ts'. answers c key operation rnd ts'
                  (result_queue (fold (worker_step c key operation rnd) ws p))
           \<and> mset ts' + mset (in_flight (fold (worker_step c key operation rnd) ws p))
                + mset (task_queue (fold (worker_step c key operation rnd) ws p))
             = mset ts + mset (in_flight p) + mset (task_queue p)"
  using assms
proof (induction ws arbitrary: p ts)
  case Nil
  then show ?case by auto
next
  case (Cons w ws)
  from step_conserves [OF Cons.prems, of w] obtain ts1 where
    1: "answers c key operation rnd ts1 (result_queue (worker_step c key operation rnd w p))" and
    2: "mset ts1 + mset (in_flight (worker_step c key operation rnd w p))
          + mset (task_queue (worker_step c key operation rnd w p))
        = mset ts + mset (in_flight p) + mset (task_queue p)"
    by blast
  from Cons.IH [OF 1] 2 show ?case by simp
qed

lemma worker_pool_answers_all:
  assumes "0 < max_workers"
  shows "\<exists>ts. mset ts = mset tasks_put
           \<and> answers c key operation rnd ts
                (worker_pool c key operation rnd max_workers interleaving tasks_put)"
proof -
  let ?p0 = "\<lparr>task_queue = tasks_put, current = replicate max_workers None,
              result_queue = []\<rparr>"
  let ?step = "worker_step c key operation rnd"
  let ?p1 = "fold ?step interleaving ?p0"
  let ?rounds = "concat (replicate (2 * length tasks_put) [0..<max_workers])"
  let ?p2 = "fold ?step ?rounds ?p1"
  have f0: "in_flight ?p0 = []"
    by (simp add: in_flight_def option_list_def)
  have w0: "work ?p0 = 2 * length tasks_put"
    by (simp add: work_def f0)
  have l1: "length (current ?p1) = max_workers" by simp
  have "work ?p1 \<le> 2 * length tasks_put"
    using fold_work_le [of c key operation rnd interleaving ?p0] by (simp add: w0)
  moreover have "work ?p2 \<le> work ?p1 - 2 * length tasks_put"
    using rounds_work [of ?p1 c key operation rnd "2 * length tasks_put"] assms
    by (simp only: l1)
  ultimately have "work ?p2 = 0" by simp
  then have fin: "task_queue ?p2 = []" "in_flight ?p2 = []"
    by (simp_all add: work_def)
  have "answers c key operation rnd [] (result_queue ?p0)"
    by (simp add: answers_def)
  from fold_conserves [OF this, of "interleaving @ ?rounds"] obtain ts where
    a: "answers c key operation rnd ts (result_queue ?p2)" and
    m: "mset ts + mset (in_flight ?p2) + mset (task_queue ?p2)
          = mset (in_flight ?p0) + mset (task_queue ?p0)"
    by auto
  from m have "mset ts = mset tasks_put" by (simp add: fin f0)
  moreover from a have "answers c key operation rnd ts
       (worker_pool c key operation rnd max_workers interleaving tasks_put)"
    by (simp add: worker_pool_def)
  ultimately show ?thesis by blast
qed

section \<open>Properties of the chunk operations\<close>

lemma length_token_bytes16 [simp]: "length (token_bytes16 w) = 16"
  by (simp add: token_bytes16_def)

lemma remove_padding_padded:
  assumes "p = 16 - length xs mod 16"
  shows "remove_padding (xs @ replicate p (of_nat p)) = Inr xs"
proof -
  have p: "0 < p" "p \<le> 16" using assms by auto
  then have u: "uint (of_nat p :: byte) = int p"
    by (simp add: uint_nat unat_of_nat)
  have l: "last (xs @ replicate p (of_nat p :: byte)) = of_nat p"
    using p by (cases p) simp_all
  show ?thesis
    using p by (simp add: remove_padding_def l u slice_to_def Let_def)
qed

lemma length_encrypt_chunk:
  assumes "cipher_ok c"
  shows "length (encrypt_chunk c token chunk_data key) =
           32 + length chunk_data - length chunk_data mod 16"
proof -
  define p where "p = 16 - length chunk_data mod 16"
  define padded where "padded = chunk_data @ replicate p (of_nat p :: byte)"
  have m: "length padded mod 16 = 0"
    unfolding padded_def p_def by (simp add: mod_simps) presburger
  from assms m have
    l: "length (cbc_encrypt c key (token_bytes16 token) padded) = length padded"
    by (simp add: cipher_ok_def)
  have "length (encrypt_chunk c token chunk_data key) = 16 + length padded"
    by (simp add: encrypt_chunk_def Let_def padded_def [symmetric] p_def [symmetric] l)
  also have "\<dots> = 32 + length chunk_data - length chunk_data mod 16"
    by (simp add: padded_def p_def)
  finally show ?thesis .
qed

lemma decrypt_encrypt_chunk:
  assumes "cipher_ok c"
  shows "decrypt_chunk c (encrypt_chunk c token chunk_data key) key = Inr chunk_data"
proof -
  define p where "p = 16 - length chunk_data mod 16"
  define padded where "padded = chunk_data @ replicate p (of_nat p :: byte)"
  have m: "length padded mod 16 = 0"
    unfolding padded_def p_def by (simp add: mod_simps) presburger
  have e: "encrypt_chunk c token chunk_data key =
             token_bytes16 token @ cbc_encrypt c key (token_bytes16 token) padded"
    by (simp add: encrypt_chunk_def Let_def padded_def p_def)
  from assms m have
    l: "length (cbc_encrypt c key (token_bytes16 token) padded) = length padded" and
    d: "cbc_decrypt c key (token_bytes16 token) (cbc_encrypt c key (token_bytes16 token) padded)
          = padded"
    by (simp_all add: cipher_ok_def)
  have r: "remove_padding padded = Inr chunk_data"
    unfolding padded_def by (rule remove_padding_padded) (simp add: p_def)
  show ?thesis
    by (simp add: e decrypt_chunk_def Let_def l m d r)
qed

lemma cipher_ok_toy: "cipher_ok toy_crypto"
  by (simp add: cipher_ok_def toy_crypto_def)

text \<open>
  Claim C5, as amended. Padding removal reads the trailing byte as \<open>p\<close> and validates
  nothing. On a non-empty buffer it never fails: it returns the empty byte string when
  \<open>p\<close> is 0, and otherwise the buffer without its last \<open>p\<close> bytes (nothing is left
  when \<open>p\<close> exceeds the buffer length), whatever those bytes are and whether or not
  \<open>p\<close> exceeds the block size. Only the empty buffer fails, with \<^verbatim>\<open>IndexError\<close>.
\<close>

theorem remove_padding_validates_nothing:
  "remove_padding decrypted_data =
     (if decrypted_data = [] then Inl IndexError
      else if last decrypted_data = 0 then Inr []
      else Inr (take (length decrypted_data - unat (last decrypted_data)) decrypted_data))"
proof (cases "decrypted_data = []")
  case True
  then show ?thesis by (simp add: remove_padding_def)
next
  case False
  define p where "p = uint (last decrypted_data)"
  have p0: "0 \<le> p" by (simp add: p_def)
  have r: "remove_padding decrypted_data = Inr (slice_to decrypted_data (- p))"
    using False by (simp add: remove_padding_def p_def)
  show ?thesis
  proof (cases "last decrypted_data = 0")
    case True
    then have "p = 0" by (simp add: p_def)
    with r False True show ?thesis by (simp add: slice_to_def)
  next
    case nz: False
    then have "p \<noteq> 0" unfolding p_def by (simp add: uint_0_iff)
    with p0 have pos: "0 < p" by simp
    have "unat (last decrypted_data) = nat p" by (simp add: p_def)
    then have "nat (int (length decrypted_data) + - p) =
                 length decrypted_data - unat (last decrypted_data)"
      using p0 by (simp add: nat_diff_distrib')
    with r False nz pos show ?thesis by (simp add: slice_to_def)
  qed
qed

text \<open>
  Claim C5 as stated fails: no buffer makes padding removal raise a padding error.
  A 16-byte buffer ending in 0, or in 200 (more than the buffer length), is decrypted
  to the empty string; a 32-byte buffer ending in 17 (more than the block size) loses
  its last 17 bytes; a buffer ending in 1, 2, 3 loses its last 3 bytes although they
  are not all 3. The last line is the same buffer through \<open>decrypt_chunk\<close>.
\<close>

theorem padding_not_validated_counterexample:
  "remove_padding (replicate 15 7 @ [0]) = Inr []
   \<and> remove_padding (replicate 15 7 @ [200]) = Inr []
   \<and> remove_padding (replicate 31 7 @ [17]) = Inr (replicate 15 7)
   \<and> remove_padding (replicate 13 7 @ [1, 2, 3]) = Inr (replicate 13 7)
   \<and> decrypt_chunk toy_crypto (replicate 16 0 @ replicate 13 7 @ [1, 2, 3]) [] =
       Inr (replicate 13 7)"
  by code_simp

section \<open>Properties of the main thread\<close>

lemma results_dict_snoc:
  "results_dict (rs @ [r]) =
     (case r_outcome r of Inr data \<Rightarrow> (results_dict rs)(r_chunk_id r \<mapsto> data)
                        | Inl e \<Rightarrow> results_dict rs)"
  unfolding results_dict_def by simp

lemma results_dict_notin:
  "i \<notin> r_chunk_id ` set rs \<Longrightarrow> results_dict rs i = None"
  by (induction rs rule: rev_induct) (auto simp: results_dict_snoc results_dict_def split: sum.splits)

lemma results_dict_distinct:
  "distinct (map r_chunk_id rs) \<Longrightarrow> r \<in> set rs \<Longrightarrow>
     results_dict rs (r_chunk_id r) =
       (case r_outcome r of Inr data \<Rightarrow> Some data | Inl e \<Rightarrow> None)"
proof (induction rs rule: rev_induct)
  case Nil
  then show ?case by simp
next
  case (snoc x xs)
  show ?case
  proof (cases "r = x")
    case True
    with snoc.prems have "r_chunk_id x \<notin> r_chunk_id ` set xs" by auto
    then have "results_dict xs (r_chunk_id x) = None" by (rule results_dict_notin)
    with True show ?thesis by (simp add: results_dict_snoc split: sum.splits)
  next
    case False
    with snoc.prems have r: "r \<in> set xs" and d: "distinct (map r_chunk_id xs)"
      and ne: "r_chunk_id x \<noteq> r_chunk_id r" by auto
    from snoc.IH [OF d r] ne show ?thesis
      by (simp add: results_dict_snoc split: sum.splits)
  qed
qed

lemma map_fst_read_frames: "map fst (read_frames n i f) = [i..<i + n]"
  by (induction n arbitrary: i f) (simp_all add: Let_def upt_rec)

lemma length_read_frames [simp]: "length (read_frames n i f) = n"
  by (induction n arbitrary: i f) (simp_all add: Let_def)

lemma well_numbered_read_frames: "well_numbered (read_frames n 0 f)"
  using map_fst_read_frames [of n 0 f] by (simp add: well_numbered_def)

lemma map_fst_split_chunks:
  "map fst (split_chunks chunk_size i f) = [i..<i + length (split_chunks chunk_size i f)]"
proof (induction chunk_size i f rule: split_chunks.induct)
  case (1 chunk_size chunk_id f)
  show ?case
  proof (cases "read_prefix chunk_size f = []")
    case True
    then show ?thesis by (simp add: split_chunks.simps)
  next
    case False
    from "1.IH" [OF False] False show ?thesis
      by (subst (1 2) split_chunks.simps) (simp add: upt_rec)
  qed
qed

lemma well_numbered_split_chunks: "well_numbered (split_chunks chunk_size 0 f)"
  using map_fst_split_chunks [of chunk_size 0 f] by (simp add: well_numbered_def)

lemma f_read_ok: "- 1 \<le> n \<Longrightarrow> f_read n f = Inr (read_prefix n f)"
  by (auto simp: f_read_def read_prefix_def)

lemma read_chunks_split:
  "- 1 \<le> chunk_size \<Longrightarrow> read_chunks chunk_size i f = Inr (split_chunks chunk_size i f)"
proof (induction chunk_size i f rule: split_chunks.induct)
  case (1 chunk_size chunk_id f)
  show ?case
  proof (cases "read_prefix chunk_size f = []")
    case True
    then show ?thesis
      by (subst read_chunks.simps, subst split_chunks.simps)
        (simp add: f_read_ok [OF "1.prems"])
  next
    case False
    from "1.IH" [OF False "1.prems"] False show ?thesis
      by (subst read_chunks.simps, subst split_chunks.simps)
        (simp add: f_read_ok [OF "1.prems"])
  qed
qed


lemma well_numbered_nth:
  "well_numbered chunks \<Longrightarrow> i < length chunks \<Longrightarrow> fst (chunks ! i) = i"
  by (metis well_numbered_def length_map nth_map nth_upt add_0)

lemma add_chunk_tasks_fold:
  "tasks (fold (\<lambda>(i, chunk_id, chunk_data). add_task (clock i) chunk_id (int (length chunk_data))) zs s)
     = tasks s @ map (\<lambda>(i, chunk_id, chunk_data). Task chunk_id (int (length chunk_data)) (clock i)) zs
   \<and> algorithm (fold (\<lambda>(i, chunk_id, chunk_data). add_task (clock i) chunk_id (int (length chunk_data))) zs s)
     = algorithm s
   \<and> time_quantum (fold (\<lambda>(i, chunk_id, chunk_data). add_task (clock i) chunk_id (int (length chunk_data))) zs s)
     = time_quantum s"
  by (induction zs arbitrary: s) (auto simp: add_task_def)

lemma add_chunk_tasks_fields:
  "algorithm (add_chunk_tasks clock chunks s) = algorithm s"
  "time_quantum (add_chunk_tasks clock chunks s) = time_quantum s"
  "map task_id (tasks (add_chunk_tasks clock chunks s)) = map task_id (tasks s) @ map fst chunks"
proof -
  show "algorithm (add_chunk_tasks clock chunks s) = algorithm s"
    "time_quantum (add_chunk_tasks clock chunks s) = time_quantum s"
    by (simp_all add: add_chunk_tasks_def add_chunk_tasks_fold)
  have "map (task_id \<circ> (\<lambda>(i, chunk_id, chunk_data). Task chunk_id (int (length chunk_data)) (clock i)))
          (zip [0..<length chunks] chunks) = map (fst \<circ> snd) (zip [0..<length chunks] chunks)"
    by (rule map_cong) (auto simp: Task_def)
  also have "\<dots> = map fst chunks"
    by (simp add: map_map [symmetric] del: map_map)
  finally show "map task_id (tasks (add_chunk_tasks clock chunks s)) = map task_id (tasks s) @ map fst chunks"
    by (simp add: add_chunk_tasks_def add_chunk_tasks_fold)
qed

lemma dispatch_in_range:
  "\<forall>e \<in> set es. e_task_id e < length chunks \<Longrightarrow>
     dispatch chunks es q = (None, q @ map (\<lambda>e. (e_task_id e, snd (chunks ! e_task_id e))) es)"
  by (induction es arbitrary: q) simp_all

lemma schedule_sorted:
  assumes "algorithm s = ''FCFS'' \<or> algorithm s = ''SJF''"
  shows "\<exists>es. schedule_tasks s = Some (Inr es, s)
           \<and> mset (map e_task_id es) = mset (map task_id (tasks s))"
proof -
  have "mset (map e_task_id (schedule_fcfs s)) = mset (map task_id (tasks s))"
    by (simp add: schedule_fcfs_def comp_def)
  moreover have "mset (map e_task_id (schedule_sjf s)) = mset (map task_id (tasks s))"
    by (simp add: schedule_sjf_def comp_def)
  ultimately show ?thesis using assms by (auto simp: schedule_tasks_def)
qed

lemma dispatched_permutation:
  assumes "well_numbered chunks"
      and "mset (map e_task_id es) = mset (map fst chunks)"
  shows "dispatch chunks es [] = (None, map (\<lambda>e. (e_task_id e, snd (chunks ! e_task_id e))) es)"
    and "mset (map (\<lambda>e. (e_task_id e, snd (chunks ! e_task_id e))) es) = mset chunks"
proof -
  from assms have s: "set (map e_task_id es) = {0..<length chunks}"
    by (metis well_numbered_def set_mset_mset set_upt)
  then have "\<forall>e \<in> set es. e_task_id e < length chunks" by auto
  then show "dispatch chunks es [] = (None, map (\<lambda>e. (e_task_id e, snd (chunks ! e_task_id e))) es)"
    by (simp add: dispatch_in_range)
  have "map (\<lambda>i. (i, snd (chunks ! i))) [0..<length chunks] = chunks"
  proof (rule nth_equalityI)
    show "length (map (\<lambda>i. (i, snd (chunks ! i))) [0..<length chunks]) = length chunks"
      by simp
  next
    fix i
    assume "i < length (map (\<lambda>i. (i, snd (chunks ! i))) [0..<length chunks])"
    then have i: "i < length chunks" by simp
    from well_numbered_nth [OF assms(1) i] have "(i, snd (chunks ! i)) = chunks ! i"
      by (metis prod.collapse)
    with i show "map (\<lambda>i. (i, snd (chunks ! i))) [0..<length chunks] ! i = chunks ! i"
      by simp
  qed
  moreover have "mset (map (\<lambda>e. (e_task_id e, snd (chunks ! e_task_id e))) es) =
          image_mset (\<lambda>i. (i, snd (chunks ! i))) (mset (map e_task_id es))"
    by (simp add: multiset.map_comp comp_def)
  moreover have "mset (map fst chunks) = mset [0..<length chunks]"
    using assms(1) by (simp add: well_numbered_def)
  ultimately show "mset (map (\<lambda>e. (e_task_id e, snd (chunks ! e_task_id e))) es) = mset chunks"
    using assms(2) by (metis mset_map)
qed


lemma process_task_fields:
  "r_chunk_id (process_task c key operation rnd k w t) = fst t"
  "r_outcome (process_task c key operation rnd k w t) =
     (if operation = ''encrypt'' then Inr (encrypt_chunk c (rnd (Suc k)) (snd t) key)
      else decrypt_chunk c (snd t) key)"
  by (simp_all add: process_task_def split: prod.splits)

lemma answers_ids:
  "answers c key operation rnd ts rs \<Longrightarrow> map r_chunk_id rs = map fst ts"
  unfolding answers_def
  by (induction rule: list_all2_induct) (auto simp: process_task_fields)

lemma answers_length:
  "answers c key operation rnd ts rs \<Longrightarrow> length rs = length ts"
  by (simp add: answers_def list_all2_lengthD)

lemma answers_member:
  "answers c key operation rnd ts rs \<Longrightarrow> t \<in> set ts \<Longrightarrow>
     \<exists>r \<in> set rs. \<exists>k w. r = process_task c key operation rnd k w t"
  unfolding answers_def
  by (induction rule: list_all2_induct) auto

lemma run_workers_sorted:
  assumes alg: "algorithm scheduler = ''FCFS'' \<or> algorithm scheduler = ''SJF''"
      and fresh: "tasks scheduler = []"
      and wn: "well_numbered chunks"
      and W: "0 < max_workers"
  shows "\<exists>rs ts q. run_workers c rnd clock interleaving key operation chunks max_workers scheduler
            = Inr (rs, \<lparr>returned = None, output_file = None,
                        workers_started = nat max_workers, dispatched = q\<rparr>)
           \<and> mset ts = mset chunks \<and> answers c key operation rnd ts rs"
proof -
  let ?s1 = "add_chunk_tasks clock chunks scheduler"
  from alg have "algorithm ?s1 = ''FCFS'' \<or> algorithm ?s1 = ''SJF''"
    by (simp add: add_chunk_tasks_fields)
  from schedule_sorted [OF this] obtain es where
    es: "schedule_tasks ?s1 = Some (Inr es, ?s1)" and
    m: "mset (map e_task_id es) = mset (map task_id (tasks ?s1))"
    by blast
  have "map task_id (tasks ?s1) = map fst chunks"
    by (simp add: add_chunk_tasks_fields fresh)
  with m have m': "mset (map e_task_id es) = mset (map fst chunks)" by simp
  let ?q = "map (\<lambda>e. (e_task_id e, snd (chunks ! e_task_id e))) es"
  note d = dispatched_permutation [OF wn m']
  let ?rs = "worker_pool c key operation rnd (nat max_workers) interleaving ?q"
  from W have "0 < nat max_workers" by simp
  from worker_pool_answers_all [OF this, of ?q c key operation rnd interleaving]
  obtain ts where ts: "mset ts = mset ?q" "answers c key operation rnd ts ?rs"
    by blast
  from ts(1) d(2) have mts: "mset ts = mset chunks" by simp
  then have "length ts = length chunks" by (rule mset_eq_length)
  with answers_length [OF ts(2)] have "length ?rs = length chunks" by simp
  then have col: "collect_results (length chunks) ?rs = Some ?rs"
    by (simp add: collect_results_def)
  have "run_workers c rnd clock interleaving key operation chunks max_workers scheduler
          = Inr (?rs, \<lparr>returned = None, output_file = None,
                        workers_started = nat max_workers, dispatched = ?q\<rparr>)"
    by (simp add: run_workers_def Let_def es d(1) col)
  with mts ts(2) show ?thesis by blast
qed

lemma results_dict_answers:
  assumes a: "answers c key operation rnd ts rs"
      and m: "mset ts = mset chunks"
      and wn: "well_numbered chunks"
      and i: "i < length chunks"
  shows "\<exists>k w. results_dict rs i =
           (case r_outcome (process_task c key operation rnd k w (chunks ! i)) of
              Inr data \<Rightarrow> Some data | Inl e \<Rightarrow> None)"
proof -
  have "mset (map fst ts) = mset (map fst chunks)"
    using m by (metis mset_map)
  also have "\<dots> = mset [0..<length chunks]"
    using wn by (simp add: well_numbered_def)
  finally have "distinct (map fst ts)"
    by (metis distinct_upt mset_eq_imp_distinct_iff)
  with answers_ids [OF a] have dist: "distinct (map r_chunk_id rs)" by simp
  from i have "chunks ! i \<in> set chunks" by simp
  with m have "chunks ! i \<in> set ts" by (metis mset_eq_setD)
  from answers_member [OF a this] obtain r k w where
    r: "r \<in> set rs" "r = process_task c key operation rnd k w (chunks ! i)"
    by blast
  have "r_chunk_id r = i"
    by (simp add: r(2) process_task_fields well_numbered_nth [OF wn i])
  with results_dict_distinct [OF dist r(1)] r(2) show ?thesis by auto
qed

lemma decrypt_output:
  assumes alg: "algorithm scheduler = ''FCFS'' \<or> algorithm scheduler = ''SJF''"
      and fresh: "tasks scheduler = []"
      and W: "0 < max_workers"
  shows "\<exists>g q. decrypt_file_parallel c rnd clock interleaving input_file password chunk_size
                max_workers scheduler =
           \<lparr>returned = Some (Inr (g, from_bytes (take 4 (drop 16 input_file)))),
            output_file = Some (concat (map
               (\<lambda>(i, chunk_data).
                   case decrypt_chunk c chunk_data (kdf c password (take 16 input_file)) of
                     Inl e \<Rightarrow> [] | Inr data \<Rightarrow> data)
               (read_frames (from_bytes (take 4 (drop 16 input_file))) 0
                  (drop 4 (drop 16 input_file))))),
            workers_started = nat max_workers, dispatched = q\<rparr>"
proof -
  define key where "key = kdf c password (take 16 input_file)"
  define n where "n = from_bytes (take 4 (drop 16 input_file))"
  define chunks where "chunks = read_frames n 0 (drop 4 (drop 16 input_file))"
  have wn: "well_numbered chunks"
    by (simp add: chunks_def well_numbered_read_frames)
  have len: "length chunks = n" by (simp add: chunks_def)
  from run_workers_sorted [OF alg fresh wn W, of c rnd clock interleaving key "''decrypt''"]
  obtain rs ts q where
    run: "run_workers c rnd clock interleaving key ''decrypt'' chunks max_workers scheduler
            = Inr (rs, \<lparr>returned = None, output_file = None,
                        workers_started = nat max_workers, dispatched = q\<rparr>)" and
    m: "mset ts = mset chunks" and a: "answers c key ''decrypt'' rnd ts rs"
    by blast
  have dict: "(case results_dict rs i of None \<Rightarrow> [] | Some data \<Rightarrow> data) =
                (case decrypt_chunk c (snd (chunks ! i)) key of Inl e \<Rightarrow> [] | Inr data \<Rightarrow> data)"
    if "i < length chunks" for i
    using results_dict_answers [OF a m wn that]
    by (auto simp: process_task_fields split: sum.splits)
  have "write_decrypted (length chunks) (results_dict rs) =
          concat (map (\<lambda>i. case decrypt_chunk c (snd (chunks ! i)) key of
                              Inl e \<Rightarrow> [] | Inr data \<Rightarrow> data) [0..<length chunks])"
    unfolding write_decrypted_def
    by (rule arg_cong [where f = concat], rule map_cong) (simp_all add: dict)
  also have "map (\<lambda>i. case decrypt_chunk c (snd (chunks ! i)) key of
                              Inl e \<Rightarrow> [] | Inr data \<Rightarrow> data) [0..<length chunks] =
             map (\<lambda>(i, chunk_data). case decrypt_chunk c chunk_data key of
                              Inl e \<Rightarrow> [] | Inr data \<Rightarrow> data) chunks"
    by (rule nth_equalityI) (simp_all add: case_prod_beta)
  finally have out: "write_decrypted (length chunks) (results_dict rs) =
     concat (map (\<lambda>(i, chunk_data). case decrypt_chunk c chunk_data key of
                              Inl e \<Rightarrow> [] | Inr data \<Rightarrow> data) chunks)" .
  have "decrypt_file_parallel c rnd clock interleaving input_file password chunk_size
                max_workers scheduler =
           \<lparr>returned = Some (Inr (gantt_data rs, n)),
            output_file = Some (concat (map (\<lambda>(i, chunk_data).
                   case decrypt_chunk c chunk_data key of Inl e \<Rightarrow> [] | Inr data \<Rightarrow> data) chunks)),
            workers_started = nat max_workers, dispatched = q\<rparr>"
    unfolding decrypt_file_parallel_def Let_def
    by (simp only: key_def [symmetric] n_def [symmetric] chunks_def [symmetric] run)
       (simp add: out [unfolded len] len)
  then show ?thesis unfolding key_def n_def chunks_def by blast
qed

section \<open>Failed chunks and short files\<close>

text \<open>
  Claim C3, as amended. With FCFS or SJF, at least one worker and a scheduler without
  earlier tasks, \<^verbatim>\<open>decrypt_file_parallel\<close> returns normally for every input file and
  every interleaving of the threads, whether or not chunks fail: it returns the chunk
  count of the header and writes an output file holding, in ascending chunk order, the
  plaintext of every chunk that decrypts and nothing for a chunk that fails.
\<close>

theorem failed_chunks_are_left_out:
  assumes "algorithm scheduler = ''FCFS'' \<or> algorithm scheduler = ''SJF''"
      and "tasks scheduler = []"
      and "0 < max_workers"
  shows "\<exists>g q. decrypt_file_parallel c rnd clock interleaving input_file password chunk_size
                max_workers scheduler =
           \<lparr>returned = Some (Inr (g, from_bytes (take 4 (drop 16 input_file)))),
            output_file = Some (concat (map
               (\<lambda>(i, chunk_data).
                   case decrypt_chunk c chunk_data (kdf c password (take 16 input_file)) of
                     Inl e \<Rightarrow> [] | Inr data \<Rightarrow> data)
               (read_frames (from_bytes (take 4 (drop 16 input_file))) 0
                  (drop 4 (drop 16 input_file))))),
            workers_started = nat max_workers, dispatched = q\<rparr>"
  using assms by (rule decrypt_output)

theorem failed_chunks_are_left_out_witness:
  "(algorithm (TaskScheduler ''SJF'' None) = ''FCFS'' \<or> algorithm (TaskScheduler ''SJF'' None) = ''SJF'')
   \<and> tasks (TaskScheduler ''SJF'' None) = []
   \<and> (0::int) < 2
   \<and> (\<exists>g q. decrypt_file_parallel toy_crypto (\<lambda>_. 0) (\<lambda>_. 0) [1, 0, 1] damaged_file ''pw'' 1024
                2 (TaskScheduler ''SJF'' None) =
           \<lparr>returned = Some (Inr (g, from_bytes (take 4 (drop 16 damaged_file)))),
            output_file = Some (concat (map
               (\<lambda>(i, chunk_data).
                   case decrypt_chunk toy_crypto chunk_data (kdf toy_crypto ''pw'' (take 16 damaged_file)) of
                     Inl e \<Rightarrow> [] | Inr data \<Rightarrow> data)
               (read_frames (from_bytes (take 4 (drop 16 damaged_file))) 0
                  (drop 4 (drop 16 damaged_file))))),
            workers_started = nat 2, dispatched = q\<rparr>)"
proof -
  have 1: "algorithm (TaskScheduler ''SJF'' None) = ''FCFS'' \<or> algorithm (TaskScheduler ''SJF'' None) = ''SJF''"
    by (simp add: TaskScheduler_def)
  have 2: "tasks (TaskScheduler ''SJF'' None) = []"
    by (simp add: TaskScheduler_def)
  have 3: "(0::int) < 2" by simp
  from failed_chunks_are_left_out [OF 1 2 3] 1 2 3 show ?thesis by blast
qed

text \<open>
  Claim C3 as stated fails: chunk 1 of \<open>damaged_file\<close> fails in the worker, yet the run
  returns normally with chunk count 2 and creates an output file that holds chunk 0
  only.
\<close>

theorem failed_chunk_counterexample:
  "decrypt_chunk toy_crypto [1, 2, 3, 4, 5] (kdf toy_crypto ''pw'' (take 16 damaged_file))
     = Inl (ValueError ''Invalid IV size (5) for CBC.'')
   \<and> decrypt_file_parallel toy_crypto (\<lambda>_. 0) (\<lambda>_. 0) [] damaged_file ''pw'' 1024 1
       (TaskScheduler ''FCFS'' None)
     = \<lparr>returned = Some (Inr ([(0, 0)], 2)), output_file = Some [65], workers_started = 1,
        dispatched = [(0, replicate 16 0 @ [65] @ replicate 15 15), (1, [1, 2, 3, 4, 5])]\<rparr>"
  by code_simp








section \<open>Configuration errors\<close>




lemma split_chunks_empty: "split_chunks chunk_size i [] = []"
  by (subst split_chunks.simps) (simp add: read_prefix_def)




section \<open>Round Robin in a run\<close>

text \<open>
  Claim C4 (fails on the code). The same 4-byte file, password and chunk size 2 are
  encrypted with two workers whose actions interleave as 0, 1, 0, 0 (thread 1 is slow
  with chunk 1), and the result is decrypted. Under FCFS the plaintext comes back.
  Under Round Robin with quantum 1 each chunk is dispatched twice, the first two
  results collected are both for chunk 0, chunk 1 is never written, and decryption
  yields the first two bytes only.
\<close>

theorem round_robin_drops_chunk:
  "map_option
     (\<lambda>encrypted. output_file (decrypt_file_parallel toy_crypto (\<lambda>_. 0) (\<lambda>_. 0) [] encrypted
                      ''pw'' 2 1 (TaskScheduler ''FCFS'' None)))
     (output_file (encrypt_file_parallel toy_crypto (\<lambda>_. 0) (\<lambda>_. 0) [0, 1, 0, 0] [1, 2, 3, 4]
                      ''pw'' 2 2 (TaskScheduler ''FCFS'' None)))
     = Some (Some [1, 2, 3, 4])
   \<and> map_option
     (\<lambda>encrypted. output_file (decrypt_file_parallel toy_crypto (\<lambda>_. 0) (\<lambda>_. 0) [] encrypted
                      ''pw'' 2 1 (TaskScheduler ''FCFS'' None)))
     (output_file (encrypt_file_parallel toy_crypto (\<lambda>_. 0) (\<lambda>_. 0) [0, 1, 0, 0] [1, 2, 3, 4]
                      ''pw'' 2 2 (TaskScheduler ''Round Robin'' (Some 1))))
     = Some (Some [1, 2])
   \<and> returned (encrypt_file_parallel toy_crypto (\<lambda>_. 0) (\<lambda>_. 0) [0, 1, 0, 0] [1, 2, 3, 4]
                      ''pw'' 2 2 (TaskScheduler ''Round Robin'' (Some 1)))
     = Some (Inr ([(0, 0), (0, 0)], 2))"
  by code_simp

section \<open>The file format\<close>

lemma read_prefix_prefix: "read_prefix n f @ drop (length (read_prefix n f)) f = f"
  by (simp add: read_prefix_def min_def)

lemma read_prefix_empty: "n \<noteq> 0 \<Longrightarrow> read_prefix n f = [] \<longleftrightarrow> f = []"
  by (auto simp: read_prefix_def)

lemma concat_split_chunks:
  "chunk_size \<noteq> 0 \<Longrightarrow> concat (map snd (split_chunks chunk_size i f)) = f"
proof (induction chunk_size i f rule: split_chunks.induct)
  case (1 chunk_size chunk_id f)
  show ?case
  proof (cases "read_prefix chunk_size f = []")
    case True
    with "1.prems" have "f = []" by (simp add: read_prefix_empty)
    then show ?thesis by (subst split_chunks.simps) (simp add: read_prefix_def)
  next
    case False
    from "1.IH" [OF False "1.prems"] False show ?thesis
      by (subst split_chunks.simps) (simp add: read_prefix_prefix)
  qed
qed

lemma split_chunks_bounds:
  "length (split_chunks chunk_size i f) \<le> length f
   \<and> (\<forall>t \<in> set (split_chunks chunk_size i f). length (snd t) \<le> length f)"
proof (induction chunk_size i f rule: split_chunks.induct)
  case (1 chunk_size chunk_id f)
  show ?case
  proof (cases "read_prefix chunk_size f = []")
    case True
    then show ?thesis by (subst (1 2) split_chunks.simps) simp
  next
    case False
    let ?d = "read_prefix chunk_size f"
    have k: "0 < length ?d" "length ?d \<le> length f"
      using False by (auto simp: read_prefix_def)
    have r: "split_chunks chunk_size chunk_id f =
               (chunk_id, ?d) # split_chunks chunk_size (chunk_id + 1) (drop (length ?d) f)"
      using False by (subst split_chunks.simps) simp
    from "1.IH" [OF False] have
      a: "length (split_chunks chunk_size (chunk_id + 1) (drop (length ?d) f))
            \<le> length f - length ?d" and
      b: "\<forall>t \<in> set (split_chunks chunk_size (chunk_id + 1) (drop (length ?d) f)).
            length (snd t) \<le> length f - length ?d"
      by simp_all
    from a k have "Suc (length (split_chunks chunk_size (chunk_id + 1) (drop (length ?d) f)))
                     \<le> length f"
      by arith
    then have "length (split_chunks chunk_size chunk_id f) \<le> length f"
      by (simp only: r length_Cons)
    moreover from b k have "\<forall>t \<in> set (split_chunks chunk_size chunk_id f).
                              length (snd t) \<le> length f"
      by (simp only: r) fastforce
    ultimately show ?thesis by blast
  qed
qed

lemma split_chunks_nonempty:
  "0 < chunk_size \<Longrightarrow> f \<noteq> [] \<Longrightarrow> split_chunks chunk_size i f \<noteq> []"
  by (subst split_chunks.simps) (simp add: read_prefix_def)

lemma to_bytes4_be4:
  "n < 2 ^ 32 \<Longrightarrow> to_bytes4 n = Inr (be4 n)"
proof -
  assume "n < 2 ^ 32"
  then have "int n < 2 ^ 32" by (metis of_nat_less_iff of_nat_numeral of_nat_power)
  then show ?thesis by (simp add: to_bytes4_def be4_def)
qed

lemma length_be4 [simp]: "length (be4 n) = 4"
  by (simp add: be4_def)

lemma from_bytes_be4: "n < 2 ^ 32 \<Longrightarrow> from_bytes (be4 n) = n"
proof -
  assume "n < 2 ^ 32"
  define m where "m = int n"
  have n: "m < 2 ^ 32" "0 \<le> m"
    using \<open>n < 2 ^ 32\<close> unfolding m_def
    by (metis of_nat_less_iff of_nat_numeral of_nat_power) simp
  have u: "uint (of_int x :: byte) = x mod 256" for x
    by (simp add: uint_word_of_int)
  have u': "uint (of_nat k :: byte) = int k mod 256" for k
    by (metis u of_int_of_nat_eq)
  have step: "(k div 256) * 256 + k mod 256 = k" for k :: int
    by simp
  have a: "m div 2 ^ 24 mod 256 = m div 2 ^ 24" using n by simp
  have b: "m div 2 ^ 16 div 256 = m div 2 ^ 24"
    by (simp add: zdiv_zmult2_eq [symmetric])
  have c: "m div 2 ^ 8 div 256 = m div 2 ^ 16"
    by (simp add: zdiv_zmult2_eq [symmetric])
  have d: "m div 256 = m div 2 ^ 8" by simp
  have "foldl (\<lambda>a b. a * 256 + uint b) 0 (be4 n) =
     ((m div 2 ^ 24 mod 256 * 256 + m div 2 ^ 16 mod 256) * 256 + m div 2 ^ 8 mod 256) * 256
       + m mod 256"
    by (simp add: be4_def u u' m_def)
  also have "\<dots> = ((m div 2 ^ 16 div 256 * 256 + m div 2 ^ 16 mod 256) * 256
       + m div 2 ^ 8 mod 256) * 256 + m mod 256"
    by (simp only: a b)
  also have "\<dots> = (m div 2 ^ 8 div 256 * 256 + m div 2 ^ 8 mod 256) * 256 + m mod 256"
    by (simp only: step c)
  also have "\<dots> = m div 256 * 256 + m mod 256"
    by (simp only: step d)
  also have "\<dots> = m" by (rule step)
  finally show ?thesis by (simp add: from_bytes_def m_def)
qed

lemma read_frames_written:
  "\<forall>d \<in> set fs. length d < 2 ^ 32 \<Longrightarrow>
     read_frames (length fs) i (concat (map (\<lambda>d. be4 (length d) @ d) fs) @ rest) =
       zip [i..<i + length fs] fs"
proof (induction fs arbitrary: i)
  case Nil
  show ?case by simp
next
  case (Cons d fs)
  then have d: "length d < 2 ^ 32" and fs: "\<forall>d \<in> set fs. length d < 2 ^ 32" by simp_all
  have "[i..<i + length (d # fs)] = i # [Suc i..<Suc i + length fs]"
    by (simp add: upt_rec)
  with Cons.IH [OF fs, of "Suc i"] from_bytes_be4 [OF d] show ?case
    by (simp add: Let_def)
qed

lemma write_chunks_all:
  "\<forall>i \<in> set is. \<exists>d. results i = Some d \<and> length d < 2 ^ 32 \<Longrightarrow>
     write_chunks results is f =
       (None, f @ concat (map (\<lambda>i. be4 (length (the (results i))) @ the (results i)) is))"
proof (induction "is" arbitrary: f)
  case Nil
  show ?case by simp
next
  case (Cons i "is")
  then obtain d where d: "results i = Some d" "length d < 2 ^ 32" by auto
  from Cons have "\<forall>i \<in> set is. \<exists>d. results i = Some d \<and> length d < 2 ^ 32" by simp
  from Cons.IH [OF this] d show ?case
    by (simp add: to_bytes4_be4)
qed

section \<open>Encryption followed by decryption\<close>

lemma encrypt_output:
  assumes ok: "cipher_ok c"
      and alg: "algorithm scheduler = ''FCFS'' \<or> algorithm scheduler = ''SJF''"
      and fresh: "tasks scheduler = []"
      and W: "0 < max_workers"
      and ne: "input_file \<noteq> []"
      and cs: "0 < chunk_size"
      and bound: "length input_file + 32 < 2 ^ 32"
  shows "\<exists>g q frames.
           encrypt_file_parallel c rnd clock interleaving input_file password chunk_size
             max_workers scheduler =
           \<lparr>returned = Some (Inr (g, length (split_chunks chunk_size 0 input_file))),
            output_file = Some (token_bytes16 (rnd 0)
               @ be4 (length (split_chunks chunk_size 0 input_file))
               @ concat (map (\<lambda>d. be4 (length d) @ d) frames)),
            workers_started = nat max_workers, dispatched = q\<rparr>
           \<and> length frames = length (split_chunks chunk_size 0 input_file)
           \<and> (\<forall>d \<in> set frames. length d < 2 ^ 32)
           \<and> (\<forall>i < length frames. \<exists>token. frames ! i =
                 encrypt_chunk c token (snd (split_chunks chunk_size 0 input_file ! i))
                   (kdf c password (token_bytes16 (rnd 0))))"
proof -
  define salt where "salt = token_bytes16 (rnd 0)"
  define key where "key = kdf c password salt"
  define chunks where "chunks = split_chunks chunk_size 0 input_file"
  define n where "n = length chunks"
  have wn: "well_numbered chunks"
    by (simp add: chunks_def well_numbered_split_chunks)
  have nonempty: "chunks \<noteq> []"
    using cs ne by (simp add: chunks_def split_chunks_nonempty)
  have rc: "read_chunks chunk_size 0 input_file = Inr chunks"
    using cs by (simp add: chunks_def read_chunks_split)
  from split_chunks_bounds [of chunk_size 0 input_file] have
    nb: "n \<le> length input_file" and
    db: "\<forall>t \<in> set chunks. length (snd t) \<le> length input_file"
    by (simp_all add: chunks_def n_def)
  from run_workers_sorted [OF alg fresh wn W, of c rnd clock interleaving key "''encrypt''"]
  obtain rs ts q where
    run: "run_workers c rnd clock interleaving key ''encrypt'' chunks max_workers scheduler
            = Inr (rs, \<lparr>returned = None, output_file = None,
                        workers_started = nat max_workers, dispatched = q\<rparr>)" and
    m: "mset ts = mset chunks" and a: "answers c key ''encrypt'' rnd ts rs"
    by blast
  have dict: "\<exists>token. results_dict rs i = Some (encrypt_chunk c token (snd (chunks ! i)) key)"
    if "i < n" for i
  proof -
    from that have "i < length chunks" by (simp add: n_def)
    from results_dict_answers [OF a m wn this] show ?thesis
      by (auto simp: process_task_fields)
  qed
  define frames where "frames = map (\<lambda>i. the (results_dict rs i)) [0..<n]"
  have lf: "length frames = n" by (simp add: frames_def)
  have fr: "\<exists>token. frames ! i = encrypt_chunk c token (snd (chunks ! i)) key \<and>
              results_dict rs i = Some (frames ! i)" if "i < n" for i
    using dict [OF that] that by (auto simp: frames_def)
  have small: "length (frames ! i) < 2 ^ 32" if "i < n" for i
  proof -
    from fr [OF that] obtain token where
      "frames ! i = encrypt_chunk c token (snd (chunks ! i)) key" by blast
    then have "length (frames ! i) \<le> 32 + length (snd (chunks ! i))"
      by (simp add: length_encrypt_chunk [OF ok])
    moreover from that db have "length (snd (chunks ! i)) \<le> length input_file"
      by (simp add: n_def)
    ultimately show ?thesis using bound by simp
  qed
  then have small': "\<forall>d \<in> set frames. length d < 2 ^ 32"
    by (auto simp: in_set_conv_nth lf)
  have "\<forall>i \<in> set [0..<n]. \<exists>d. results_dict rs i = Some d \<and> length d < 2 ^ 32"
    using fr small by auto
  from write_chunks_all [OF this] have
    "write_chunks (results_dict rs) [0..<n] (salt @ be4 n) =
       (None, (salt @ be4 n) @ concat (map (\<lambda>i. be4 (length (the (results_dict rs i)))
                                               @ the (results_dict rs i)) [0..<n]))" .
  also have "map (\<lambda>i. be4 (length (the (results_dict rs i))) @ the (results_dict rs i)) [0..<n]
               = map (\<lambda>d. be4 (length d) @ d) frames"
    by (simp add: frames_def comp_def)
  finally have wc: "write_chunks (results_dict rs) [0..<n] (salt @ be4 n) =
       (None, salt @ be4 n @ concat (map (\<lambda>d. be4 (length d) @ d) frames))"
    by simp
  from nb bound have "n < 2 ^ 32" by simp
  then have we: "write_encrypted salt n (results_dict rs) =
       (None, salt @ be4 n @ concat (map (\<lambda>d. be4 (length d) @ d) frames))"
    by (simp add: write_encrypted_def to_bytes4_be4 wc)
  have "encrypt_file_parallel c rnd clock interleaving input_file password chunk_size
             max_workers scheduler =
           \<lparr>returned = Some (Inr (gantt_data rs, n)),
            output_file = Some (salt @ be4 n @ concat (map (\<lambda>d. be4 (length d) @ d) frames)),
            workers_started = nat max_workers, dispatched = q\<rparr>"
    unfolding encrypt_file_parallel_def Let_def
    by (simp only: salt_def [symmetric] key_def [symmetric] rc sum.case run)
       (simp add: nonempty n_def [symmetric] we)
  moreover have "\<forall>i < length frames. \<exists>token.
                    frames ! i = encrypt_chunk c token (snd (chunks ! i)) key"
    using fr lf by auto
  ultimately show ?thesis
    using lf small' unfolding n_def chunks_def key_def salt_def by blast
qed


text \<open>
  The round trip under FCFS and SJF. With a cipher that satisfies \<open>cipher_ok\<close>, a
  non-empty input file below \<open>2^32 - 32\<close> bytes (so that the chunk count and every
  frame length fit the 4-byte fields), a positive chunk size, at least one worker and
  schedulers without earlier tasks: for every salt and IVs, every clock and every
  interleaving of the worker threads, encryption returns the chunk count and writes a
  file from which decryption with the same password writes the input file again. An
  empty input file makes encryption raise \<^verbatim>\<open>ValueError\<close> with no output file.
\<close>

theorem encrypt_then_decrypt:
  assumes ok: "cipher_ok c"
      and ne: "input_file \<noteq> []"
      and cs: "0 < chunk_size"
      and bound: "length input_file + 32 < 2 ^ 32"
      and alg: "algorithm scheduler = ''FCFS'' \<or> algorithm scheduler = ''SJF''"
      and fresh: "tasks scheduler = []"
      and W: "0 < max_workers"
      and alg': "algorithm scheduler' = ''FCFS'' \<or> algorithm scheduler' = ''SJF''"
      and fresh': "tasks scheduler' = []"
      and W': "0 < max_workers'"
  shows "(\<exists>encrypted g chunks.
            read_chunks chunk_size 0 input_file = Inr chunks
            \<and> output_file (encrypt_file_parallel c rnd clock interleaving input_file password
              chunk_size max_workers scheduler) = Some encrypted
            \<and> returned (encrypt_file_parallel c rnd clock interleaving input_file password
                chunk_size max_workers scheduler)
                = Some (Inr (g, length chunks))
            \<and> output_file (decrypt_file_parallel c rnd' clock' interleaving' encrypted password
                chunk_size' max_workers' scheduler') = Some input_file)
         \<and> encrypt_file_parallel c rnd clock interleaving [] password chunk_size max_workers
             scheduler =
           \<lparr>returned = Some (Inl (ValueError ''File is empty'')), output_file = None,
            workers_started = 0, dispatched = []\<rparr>"
proof
  define salt where "salt = token_bytes16 (rnd 0)"
  define key where "key = kdf c password salt"
  define chunks where "chunks = split_chunks chunk_size 0 input_file"
  from encrypt_output [OF ok alg fresh W ne cs bound, of rnd clock interleaving password]
  obtain g q frames where
    enc: "encrypt_file_parallel c rnd clock interleaving input_file password chunk_size
             max_workers scheduler =
           \<lparr>returned = Some (Inr (g, length chunks)),
            output_file = Some (salt @ be4 (length chunks)
               @ concat (map (\<lambda>d. be4 (length d) @ d) frames)),
            workers_started = nat max_workers, dispatched = q\<rparr>" and
    lf: "length frames = length chunks" and
    small: "\<forall>d \<in> set frames. length d < 2 ^ 32" and
    fr: "\<forall>i < length frames. \<exists>token. frames ! i =
           encrypt_chunk c token (snd (chunks ! i)) key"
    unfolding salt_def key_def chunks_def by blast
  define encrypted where
    "encrypted = salt @ be4 (length chunks) @ concat (map (\<lambda>d. be4 (length d) @ d) frames)"
  have ls: "length salt = 16" by (simp add: salt_def)
  have t16: "take 16 encrypted = salt" and
    t4: "take 4 (drop 16 encrypted) = be4 (length chunks)" and
    rest: "drop 4 (drop 16 encrypted) = concat (map (\<lambda>d. be4 (length d) @ d) frames)"
    by (simp_all add: encrypted_def ls)
  from split_chunks_bounds [of chunk_size 0 input_file] bound
  have n: "length chunks < 2 ^ 32" by (simp add: chunks_def)
  have cnt: "from_bytes (take 4 (drop 16 encrypted)) = length chunks"
    by (simp add: t4 from_bytes_be4 [OF n])
  have parsed: "read_frames (length chunks) 0 (drop 4 (drop 16 encrypted)) =
                  zip [0..<length frames] frames"
    unfolding rest using read_frames_written [OF small, of 0 "[]"] by (simp add: lf)
  from decrypt_output [OF alg' fresh' W', of c rnd' clock' interleaving' encrypted password
      chunk_size']
  obtain g' q' where
    "decrypt_file_parallel c rnd' clock' interleaving' encrypted password chunk_size'
         max_workers' scheduler' =
       \<lparr>returned = Some (Inr (g', length chunks)),
        output_file = Some (concat (map
               (\<lambda>(i, chunk_data). case decrypt_chunk c chunk_data key of
                     Inl e \<Rightarrow> [] | Inr data \<Rightarrow> data)
               (zip [0..<length frames] frames))),
        workers_started = nat max_workers', dispatched = q'\<rparr>"
    by (auto simp only: cnt parsed t16 key_def)
  then have dec: "output_file (decrypt_file_parallel c rnd' clock' interleaving' encrypted
         password chunk_size' max_workers' scheduler') =
       Some (concat (map (\<lambda>(i, chunk_data). case decrypt_chunk c chunk_data key of
                     Inl e \<Rightarrow> [] | Inr data \<Rightarrow> data) (zip [0..<length frames] frames)))"
    by simp
  have "map (\<lambda>(i, chunk_data). case decrypt_chunk c chunk_data key of
                     Inl e \<Rightarrow> [] | Inr data \<Rightarrow> data) (zip [0..<length frames] frames)
          = map snd chunks"
  proof (rule nth_equalityI)
    show "length (map (\<lambda>(i, chunk_data). case decrypt_chunk c chunk_data key of
                     Inl e \<Rightarrow> [] | Inr data \<Rightarrow> data) (zip [0..<length frames] frames))
            = length (map snd chunks)"
      by (simp add: lf)
  next
    fix i
    assume "i < length (map (\<lambda>(i, chunk_data). case decrypt_chunk c chunk_data key of
                     Inl e \<Rightarrow> [] | Inr data \<Rightarrow> data) (zip [0..<length frames] frames))"
    then have i: "i < length frames" by simp
    with fr obtain token where
      "frames ! i = encrypt_chunk c token (snd (chunks ! i)) key" by blast
    then have "decrypt_chunk c (frames ! i) key = Inr (snd (chunks ! i))"
      by (simp add: decrypt_encrypt_chunk [OF ok])
    with i show "map (\<lambda>(i, chunk_data). case decrypt_chunk c chunk_data key of
                     Inl e \<Rightarrow> [] | Inr data \<Rightarrow> data) (zip [0..<length frames] frames) ! i
                   = map snd chunks ! i"
      by (simp add: lf)
  qed
  moreover from cs have "concat (map snd chunks) = input_file"
    by (simp add: chunks_def concat_split_chunks)
  ultimately have "output_file (decrypt_file_parallel c rnd' clock' interleaving' encrypted
         password chunk_size' max_workers' scheduler') = Some input_file"
    by (simp add: dec)
  moreover have "output_file (encrypt_file_parallel c rnd clock interleaving input_file password
              chunk_size max_workers scheduler) = Some encrypted"
    by (simp add: enc encrypted_def)
  moreover have "returned (encrypt_file_parallel c rnd clock interleaving input_file password
                chunk_size max_workers scheduler) = Some (Inr (g, length chunks))"
    by (simp add: enc)
  moreover have "read_chunks chunk_size 0 input_file = Inr chunks"
    using cs by (simp add: chunks_def read_chunks_split)
  ultimately show "\<exists>encrypted g chunks.
            read_chunks chunk_size 0 input_file = Inr chunks
            \<and> output_file (encrypt_file_parallel c rnd clock interleaving input_file password
              chunk_size max_workers scheduler) = Some encrypted
            \<and> returned (encrypt_file_parallel c rnd clock interleaving input_file password
                chunk_size max_workers scheduler)
                = Some (Inr (g, length chunks))
            \<and> output_file (decrypt_file_parallel c rnd' clock' interleaving' encrypted password
                chunk_size' max_workers' scheduler') = Some input_file"
    by blast
next
  show "encrypt_file_parallel c rnd clock interleaving [] password chunk_size max_workers
             scheduler =
           \<lparr>returned = Some (Inl (ValueError ''File is empty'')), output_file = None,
            workers_started = 0, dispatched = []\<rparr>"
    using cs by (simp add: encrypt_file_parallel_def read_chunks_split split_chunks_empty)
qed

theorem encrypt_then_decrypt_witness:
  "cipher_ok toy_crypto \<and> [1, 2, 3, 4, 5 :: byte] \<noteq> [] \<and> (0::int) < 2
   \<and> length [1, 2, 3, 4, 5 :: byte] + 32 < 2 ^ 32
   \<and> algorithm (TaskScheduler ''SJF'' None) = ''SJF'' \<and> tasks (TaskScheduler ''SJF'' None) = []
   \<and> (0::int) < 3
   \<and> algorithm (TaskScheduler ''FCFS'' None) = ''FCFS'' \<and> tasks (TaskScheduler ''FCFS'' None) = []
   \<and> (\<exists>encrypted g chunks.
         read_chunks 2 0 [1, 2, 3, 4, 5] = Inr chunks
         \<and> output_file (encrypt_file_parallel toy_crypto (\<lambda>_. 0) (\<lambda>_. 0) [2, 1, 0, 1]
            [1, 2, 3, 4, 5] ''pw'' 2 3 (TaskScheduler ''SJF'' None)) = Some encrypted
         \<and> returned (encrypt_file_parallel toy_crypto (\<lambda>_. 0) (\<lambda>_. 0) [2, 1, 0, 1]
            [1, 2, 3, 4, 5] ''pw'' 2 3 (TaskScheduler ''SJF'' None))
             = Some (Inr (g, length chunks))
         \<and> output_file (decrypt_file_parallel toy_crypto (\<lambda>_. 0) (\<lambda>_. 0) [1, 1, 0] encrypted
            ''pw'' 2 2 (TaskScheduler ''FCFS'' None)) = Some [1, 2, 3, 4, 5])"
proof -
  have 1: "cipher_ok toy_crypto" by (rule cipher_ok_toy)
  have 2: "[1, 2, 3, 4, 5 :: byte] \<noteq> []" by simp
  have 3: "(0::int) < 2" by simp
  have 4: "length [1, 2, 3, 4, 5 :: byte] + 32 < 2 ^ 32" by simp
  have 5: "algorithm (TaskScheduler ''SJF'' None) = ''FCFS''
             \<or> algorithm (TaskScheduler ''SJF'' None) = ''SJF''"
    by (simp add: TaskScheduler_def)
  have 6: "tasks (TaskScheduler ''SJF'' None) = []" by (simp add: TaskScheduler_def)
  have 7: "(0::int) < 3" by simp
  have 8: "algorithm (TaskScheduler ''FCFS'' None) = ''FCFS''
             \<or> algorithm (TaskScheduler ''FCFS'' None) = ''SJF''"
    by (simp add: TaskScheduler_def)
  have 9: "tasks (TaskScheduler ''FCFS'' None) = []" by (simp add: TaskScheduler_def)
  from encrypt_then_decrypt [OF 1 2 3 4 5 6 7 8 9 3,
      of "\<lambda>_. 0" "\<lambda>_. 0" "[2, 1, 0, 1]" "''pw''" "\<lambda>_. 0" "\<lambda>_. 0" "[1, 1, 0]" 2]
  have "\<exists>encrypted g chunks.
         read_chunks 2 0 [1, 2, 3, 4, 5] = Inr chunks
         \<and> output_file (encrypt_file_parallel toy_crypto (\<lambda>_. 0) (\<lambda>_. 0) [2, 1, 0, 1]
            [1, 2, 3, 4, 5] ''pw'' 2 3 (TaskScheduler ''SJF'' None)) = Some encrypted
         \<and> returned (encrypt_file_parallel toy_crypto (\<lambda>_. 0) (\<lambda>_. 0) [2, 1, 0, 1]
            [1, 2, 3, 4, 5] ''pw'' 2 3 (TaskScheduler ''SJF'' None))
             = Some (Inr (g, length chunks))
         \<and> output_file (decrypt_file_parallel toy_crypto (\<lambda>_. 0) (\<lambda>_. 0) [1, 1, 0] encrypted
            ''pw'' 2 2 (TaskScheduler ''FCFS'' None)) = Some [1, 2, 3, 4, 5]"
    by blast
  with 1 2 3 4 6 7 9 show ?thesis by (simp add: TaskScheduler_def)
qed

text \<open>
  Claim C1 (fails on the code under Round Robin). A 3-byte file is encrypted in chunks
  of 2 bytes with two workers under Round Robin with quantum 1: chunk 0 is dispatched
  twice, thread 0 answers both dispatches while thread 1 is busy with chunk 1, the two
  results collected are both for chunk 0 and chunk 1 is never written. Decrypting the
  encrypted file with the same password yields 2 of the 3 bytes.
\<close>

theorem round_trip_fails_under_round_robin:
  "map fst (dispatched (encrypt_file_parallel toy_crypto (\<lambda>_. 0) (\<lambda>_. 0) [0, 1, 0, 0]
              [10, 20, 30] ''pw'' 2 2 (TaskScheduler ''Round Robin'' (Some 1)))) = [0, 1, 0]
   \<and> returned (encrypt_file_parallel toy_crypto (\<lambda>_. 0) (\<lambda>_. 0) [0, 1, 0, 0]
              [10, 20, 30] ''pw'' 2 2 (TaskScheduler ''Round Robin'' (Some 1)))
       = Some (Inr ([(0, 0), (0, 0)], 2))
   \<and> map_option
       (\<lambda>encrypted. output_file (decrypt_file_parallel toy_crypto (\<lambda>_. 0) (\<lambda>_. 0) [] encrypted
                        ''pw'' 2 1 (TaskScheduler ''FCFS'' None)))
       (output_file (encrypt_file_parallel toy_crypto (\<lambda>_. 0) (\<lambda>_. 0) [0, 1, 0, 0]
                        [10, 20, 30] ''pw'' 2 2 (TaskScheduler ''Round Robin'' (Some 1))))
       = Some (Some [10, 20])"
  by code_simp

end
